theory Spec2Isabelle
  imports Main "HOL-Library.Sublist" "HOL-Library.AList"
begin

section \<open>Python values used by the data preparation module\<close>

text \<open>
  A Python \<open>str\<close> is a sequence of Unicode code points, so \<open>len\<close> is \<open>length\<close> and the
  operator \<open>in\<close> between two strings is the contiguous-sublist test \<^const>\<open>sublist\<close>.
  ASCII literals of the source are written through \<open>ascii\<close>; the Chinese labels are given
  by their code points.
\<close>

type_synonym ustr = "nat list"

definition ascii :: "string \<Rightarrow> ustr" where
  "ascii s = map of_char s"

text \<open>The values the module stores in a metadata dictionary: strings and integers.\<close>

datatype pyval = PStr ustr | PInt int

type_synonym dict = "ustr \<rightharpoonup> pyval"

datatype error = ValueError | KeyError | AttributeError | TypeError

text \<open>Truth value of an object in a condition (\<open>if parent_id:\<close>).\<close>

fun truthy :: "pyval \<Rightarrow> bool" where
  "truthy (PStr s) = (s \<noteq> [])"
| "truthy (PInt n) = (n \<noteq> 0)"

text \<open>
  A \<open>Document\<close> object: its text and its own metadata dictionary. No code of the module
  rebinds the attribute \<open>metadata\<close> or shares one dictionary between two objects, so the
  dictionary is kept inside the object, and objects are reached through references.
\<close>

record Document =
  page_content :: ustr
  metadata :: dict

type_synonym ref = nat

subsection \<open>Metadata keys and labels\<close>

definition k_source :: ustr where "k_source = ascii ''source''"
definition k_parent_id :: ustr where "k_parent_id = ascii ''parent_id''"
definition k_doc_type :: ustr where "k_doc_type = ascii ''doc_type''"
definition k_category :: ustr where "k_category = ascii ''category''"
definition k_dish_name :: ustr where "k_dish_name = ascii ''dish_name''"
definition k_difficulty :: ustr where "k_difficulty = ascii ''difficulty''"
definition k_chunk_id :: ustr where "k_chunk_id = ascii ''chunk_id''"
definition k_chunk_index :: ustr where "k_chunk_index = ascii ''chunk_index''"
definition k_batch_index :: ustr where "k_batch_index = ascii ''batch_index''"
definition k_chunk_size :: ustr where "k_chunk_size = ascii ''chunk_size''"

text \<open>The black star U+2605.\<close>

definition star :: nat where "star = 9733"

text \<open>
  Category labels, in the order of the source's \<open>category_mapping\<close> literal:
  U+8364 U+83DC, U+7D20 U+83DC, U+6C64 U+54C1, U+751C U+54C1, U+65E9 U+9910,
  U+4E3B U+98DF, U+6C34 U+4EA7, U+8C03 U+6599, U+996E U+54C1; the default label is
  U+5176 U+4ED6.
\<close>

definition category_mapping :: "(ustr \<times> ustr) list" where
  "category_mapping =
     [(ascii ''meat_dish'', [33636, 33756]),
      (ascii ''vegetable'', [32032, 33756]),
      (ascii ''soup'', [27748, 21697]),
      (ascii ''desert'', [29980, 21697]),
      (ascii ''breakfast'', [26089, 39184]),
      (ascii ''staple'', [20027, 39135]),
      (ascii ''squatic'', [27700, 20135]),
      (ascii ''condiment'', [35843, 26009]),
      (ascii ''drink'', [39278, 21697])]"

definition category_other :: ustr where "category_other = [20854, 20182]"

text \<open>
  Difficulty labels, hardest first: U+975E U+5E38 U+56F0 U+96BE, U+56F0 U+96BE,
  U+4E2D U+7B49, U+6BD4 U+8F83 U+7B80 U+5355, U+7B80 U+5355, and for no star
  U+96BE U+5EA6 U+672A U+77E5.
\<close>

definition very_hard :: ustr where "very_hard = [38750, 24120, 22256, 38590]"
definition hard :: ustr where "hard = [22256, 38590]"
definition medium :: ustr where "medium = [20013, 31561]"
definition fairly_easy :: ustr where "fairly_easy = [27604, 36739, 31616, 21333]"
definition easy :: ustr where "easy = [31616, 21333]"
definition difficulty_unknown :: ustr where "difficulty_unknown = [38590, 24230, 26410, 30693]"

section \<open>The part of \<open>pathlib\<close> the module uses\<close>

text \<open>
  \<open>Path(s).parts\<close> and \<open>Path(s).stem\<close> for the POSIX flavour, after CPython 3.12:
  the root is split off (one slash, or exactly two), the rest is split at slashes, and
  empty and \<open>.\<close> segments are dropped. The stem is the last segment without its last
  suffix.
\<close>

definition slash :: nat where "slash = 47"
definition dot :: nat where "dot = 46"

fun split_on :: "nat \<Rightarrow> ustr \<Rightarrow> ustr list" where
  "split_on c [] = [[]]"
| "split_on c (x # xs) =
     (if x = c then [] # split_on c xs
      else (case split_on c xs of [] \<Rightarrow> [[x]] | p # ps \<Rightarrow> (x # p) # ps))"

definition splitroot :: "ustr \<Rightarrow> ustr \<times> ustr" where
  "splitroot p =
     (if take 1 p \<noteq> [slash] then ([], p)
      else if take 1 (drop 1 p) \<noteq> [slash] \<or> take 1 (drop 2 p) = [slash]
        then ([slash], drop 1 p)
      else (take 2 p, drop 2 p))"

definition parse_path :: "ustr \<Rightarrow> ustr \<times> ustr list" where
  "parse_path p =
     (if p = [] then ([], [])
      else (let (root, rel) = splitroot p
            in (root, filter (\<lambda>x. x \<noteq> [] \<and> x \<noteq> [dot]) (split_on slash rel))))"

definition parts :: "ustr \<Rightarrow> ustr list" where
  "parts p = (let (root, tail) = parse_path p in if root \<noteq> [] then root # tail else tail)"

definition name :: "ustr \<Rightarrow> ustr" where
  "name p = (let (root, tail) = parse_path p in if tail = [] then [] else last tail)"

definition rfind :: "nat \<Rightarrow> ustr \<Rightarrow> nat option" where
  "rfind c s =
     (case filter (\<lambda>i. s ! i = c) (rev [0..<length s]) of [] \<Rightarrow> None | i # _ \<Rightarrow> Some i)"

definition stem :: "ustr \<Rightarrow> ustr" where
  "stem p =
     (let n = name p
      in case rfind dot n of
           None \<Rightarrow> n
         | Some i \<Rightarrow> if 0 < i \<and> i < length n - 1 then take i n else n)"

section \<open>Metadata enrichment\<close>

text \<open>
  The loop over \<open>category_mapping.items()\<close>: the first key of the mapping that is one
  of the path's parts sets the category and ends the loop.
\<close>

fun category_loop :: "(ustr \<times> ustr) list \<Rightarrow> ustr list \<Rightarrow> dict \<Rightarrow> dict" where
  "category_loop [] path_parts md = md"
| "category_loop ((key, val) # rest) path_parts md =
     (if key \<in> set path_parts then md(k_category \<mapsto> PStr val)
      else category_loop rest path_parts md)"

text \<open>The chain of substring tests on the content, from five stars down to one.\<close>

definition difficulty :: "ustr \<Rightarrow> ustr" where
  "difficulty content =
     (if sublist [star, star, star, star, star] content then very_hard
      else if sublist [star, star, star, star] content then hard
      else if sublist [star, star, star] content then medium
      else if sublist [star, star] content then fairly_easy
      else if sublist [star] content then easy
      else difficulty_unknown)"

text \<open>
  What \<open>_enhance_metadata\<close> makes of one \<open>Document\<close> object. \<open>Path\<close> accepts a string
  only: a \<open>source\<close> entry holding an integer raises \<open>TypeError\<close> before anything is
  written; a missing entry is read as the empty path.
\<close>

definition source_path :: "Document \<Rightarrow> ustr" where
  "source_path doc = (case metadata doc k_source of Some (PStr p) \<Rightarrow> p | _ \<Rightarrow> [])"

definition enhance_document :: "Document \<Rightarrow> error + Document" where
  "enhance_document doc =
     (case metadata doc k_source of
        Some (PInt n) \<Rightarrow> Inl TypeError
      | _ \<Rightarrow>
          (let file_path = source_path doc;
               path_parts = parts file_path;
               md1 = (metadata doc)(k_category \<mapsto> PStr category_other);
               md2 = category_loop category_mapping path_parts md1;
               md3 = md2(k_dish_name \<mapsto> PStr (stem file_path));
               content = page_content doc;
               md4 = md3(k_difficulty \<mapsto> PStr (difficulty content))
           in Inr (doc\<lparr>metadata := md4\<rparr>)))"

section \<open>The pipeline state\<close>

text \<open>
  The fields of a \<open>DataPreparationModule\<close>, together with the world it runs in: the
  store of \<open>Document\<close> objects with its allocation pointer, and the sequence of
  identifiers that \<open>uuid.uuid4\<close> is going to return with the number drawn so far.
  The lists of the module hold references, as the Python lists do.
\<close>

record pipeline =
  data_path :: ustr
  documents :: "ref list"
  chunks :: "ref list"
  parent_child_map :: "(ustr \<times> pyval) list"
  heap :: "ref \<Rightarrow> Document"
  next_ref :: ref
  uuid_source :: "nat \<Rightarrow> ustr"
  uuid_drawn :: nat

definition init :: "ustr \<Rightarrow> (nat \<Rightarrow> ustr) \<Rightarrow> pipeline" where
  "init path gen =
     \<lparr>data_path = path, documents = [], chunks = [], parent_child_map = [],
      heap = (\<lambda>_. \<lparr>page_content = [], metadata = Map.empty\<rparr>), next_ref = 0,
      uuid_source = gen, uuid_drawn = 0\<rparr>"

definition new_document :: "Document \<Rightarrow> pipeline \<Rightarrow> ref \<times> pipeline" where
  "new_document d s =
     (next_ref s, s\<lparr>heap := (heap s)(next_ref s := d), next_ref := Suc (next_ref s)\<rparr>)"

definition uuid4 :: "pipeline \<Rightarrow> ustr \<times> pipeline" where
  "uuid4 s = (uuid_source s (uuid_drawn s), s\<lparr>uuid_drawn := Suc (uuid_drawn s)\<rparr>)"

text \<open>An in-place change of the dictionary of the object behind a reference.\<close>

definition update_metadata :: "ref \<Rightarrow> (dict \<Rightarrow> dict) \<Rightarrow> pipeline \<Rightarrow> pipeline" where
  "update_metadata r f s =
     s\<lparr>heap := (heap s)(r := (heap s r)\<lparr>metadata := f (metadata (heap s r))\<rparr>)\<rparr>"

text \<open>\<open>_enhance_metadata(doc)\<close>: the object behind \<open>doc\<close> is changed in place.\<close>

definition enhance_metadata :: "ref \<Rightarrow> pipeline \<Rightarrow> (error + unit) \<times> pipeline" where
  "enhance_metadata doc s =
     (case enhance_document (heap s doc) of
        Inl e \<Rightarrow> (Inl e, s)
      | Inr d \<Rightarrow> (Inr (), s\<lparr>heap := (heap s)(doc := d)\<rparr>))"

section \<open>Loading\<close>

text \<open>
  \<open>load_documents\<close>, given what the file system holds: the Markdown files found under
  \<open>data_path\<close> as pairs of path and content.
\<close>

fun read_files :: "(ustr \<times> ustr) list \<Rightarrow> ref list \<Rightarrow> pipeline \<Rightarrow> ref list \<times> pipeline" where
  "read_files [] docs s = (docs, s)"
| "read_files ((md_file, content) # files) docs s =
     (let (parent_id, s1) = uuid4 s;
          (doc, s2) = new_document
             \<lparr>page_content = content,
              metadata = Map.empty(k_source \<mapsto> PStr md_file, k_parent_id \<mapsto> PStr parent_id,
                                   k_doc_type \<mapsto> PStr (ascii ''parent''))\<rparr> s1
      in read_files files (docs @ [doc]) s2)"

fun enhance_all :: "ref list \<Rightarrow> pipeline \<Rightarrow> (error + unit) \<times> pipeline" where
  "enhance_all [] s = (Inr (), s)"
| "enhance_all (doc # docs) s =
     (case enhance_metadata doc s of
        (Inl e, s1) \<Rightarrow> (Inl e, s1)
      | (Inr _, s1) \<Rightarrow> enhance_all docs s1)"

definition load_documents :: "(ustr \<times> ustr) list \<Rightarrow> pipeline \<Rightarrow> (error + ref list) \<times> pipeline" where
  "load_documents files s =
     (let (docs, s1) = read_files files [] s
      in case enhance_all docs s1 of
           (Inl e, s2) \<Rightarrow> (Inl e, s2)
         | (Inr _, s2) \<Rightarrow> (Inr docs, s2\<lparr>documents := docs\<rparr>))"

section \<open>Splitting\<close>

text \<open>
  The Markdown header splitter is an external library: a function from a text to its
  fragments, each a content with the splitter's own metadata (the header labels). It
  returns new \<open>Document\<close> objects, which \<open>new_documents\<close> puts into the store.
\<close>

type_synonym splitter = "ustr \<Rightarrow> (ustr \<times> dict) list"

fun new_documents :: "(ustr \<times> dict) list \<Rightarrow> pipeline \<Rightarrow> ref list \<times> pipeline" where
  "new_documents [] s = ([], s)"
| "new_documents ((content, md) # frags) s =
     (let (r, s1) = new_document \<lparr>page_content = content, metadata = md\<rparr> s;
          (rs, s2) = new_documents frags s1
      in (r # rs, s2))"

text \<open>
  The inner loop of \<open>_markdown_header_split\<close> over \<open>enumerate(md_chunks)\<close>: its body,
  and the loop.
\<close>

definition link_chunk :: "ref \<Rightarrow> pyval \<Rightarrow> nat \<Rightarrow> ref \<Rightarrow> pipeline \<Rightarrow> pipeline" where
  "link_chunk doc parent_id i chunk s =
     (let (child_id, s1) = uuid4 s;
          s2 = update_metadata chunk (\<lambda>m. m ++ metadata (heap s1 doc)) s1;
          s3 = update_metadata chunk
                 (\<lambda>m. m ++ Map.empty(k_chunk_id \<mapsto> PStr child_id, k_parent_id \<mapsto> parent_id,
                                      k_doc_type \<mapsto> PStr (ascii ''child''),
                                      k_chunk_index \<mapsto> PInt (int i))) s2
      in s3\<lparr>parent_child_map := AList.update child_id parent_id (parent_child_map s3)\<rparr>)"

fun link_chunks :: "ref \<Rightarrow> pyval \<Rightarrow> nat \<Rightarrow> ref list \<Rightarrow> pipeline \<Rightarrow> pipeline" where
  "link_chunks doc parent_id i [] s = s"
| "link_chunks doc parent_id i (chunk # md_chunks) s =
     link_chunks doc parent_id (Suc i) md_chunks (link_chunk doc parent_id i chunk s)"

text \<open>
  The outer loop over \<open>self.documents\<close>; \<open>doc.metadata["parent_id"]\<close> raises
  \<open>KeyError\<close> when the key is missing, after the splitter has run on that document.
\<close>

fun split_loop :: "splitter \<Rightarrow> ref list \<Rightarrow> ref list \<Rightarrow> pipeline \<Rightarrow> (error + ref list) \<times> pipeline" where
  "split_loop sp [] all_chunks s = (Inr all_chunks, s)"
| "split_loop sp (doc # docs) all_chunks s =
     (let (md_chunks, s1) = new_documents (sp (page_content (heap s doc))) s
      in case metadata (heap s1 doc) k_parent_id of
           None \<Rightarrow> (Inl KeyError, s1)
         | Some parent_id \<Rightarrow>
             split_loop sp docs (all_chunks @ md_chunks)
               (link_chunks doc parent_id 0 md_chunks s1))"

definition markdown_header_split :: "splitter \<Rightarrow> pipeline \<Rightarrow> (error + ref list) \<times> pipeline" where
  "markdown_header_split sp s = split_loop sp (documents s) [] s"

text \<open>The loop of \<open>chunk_documents\<close> over \<open>enumerate(chunks)\<close>: its body, and the loop.\<close>

definition number_chunk :: "nat \<Rightarrow> ref \<Rightarrow> pipeline \<Rightarrow> pipeline" where
  "number_chunk i chunk s =
     (let s1 = (if metadata (heap s chunk) k_chunk_id = None
                then (let (u, s') = uuid4 s
                      in update_metadata chunk (\<lambda>m. m(k_chunk_id \<mapsto> PStr u)) s')
                else s);
          s2 = update_metadata chunk (\<lambda>m. m(k_batch_index \<mapsto> PInt (int i))) s1
      in update_metadata chunk
           (\<lambda>m. m(k_chunk_size \<mapsto> PInt (int (length (page_content (heap s2 chunk)))))) s2)"

fun number_chunks :: "nat \<Rightarrow> ref list \<Rightarrow> pipeline \<Rightarrow> pipeline" where
  "number_chunks i [] s = s"
| "number_chunks i (chunk # rest) s = number_chunks (Suc i) rest (number_chunk i chunk s)"

definition chunk_documents :: "splitter \<Rightarrow> pipeline \<Rightarrow> (error + ref list) \<times> pipeline" where
  "chunk_documents sp s =
     (if documents s = [] then (Inl ValueError, s)
      else (case markdown_header_split sp s of
              (Inl e, s1) \<Rightarrow> (Inl e, s1)
            | (Inr cs, s1) \<Rightarrow> (Inr cs, (number_chunks 0 cs s1)\<lparr>chunks := cs\<rparr>)))"

section \<open>Aggregation\<close>

text \<open>
  The loop \<open>for doc in self.parent_child_map\<close> runs over the keys of the index, which
  are strings: reading \<open>doc.metadata\<close> on the first key raises \<open>AttributeError\<close>. With
  an empty index the loop body never runs and the cache stays as it is.
\<close>

fun find_parent :: "ustr list \<Rightarrow> pyval \<Rightarrow> (pyval \<times> ref) list \<Rightarrow> error + (pyval \<times> ref) list" where
  "find_parent [] parent_id parent_docs_map = Inr parent_docs_map"
| "find_parent (doc # rest) parent_id parent_docs_map = Inl AttributeError"

definition relevance :: "(pyval \<times> int) list \<Rightarrow> pyval \<Rightarrow> int" where
  "relevance parent_relevance x = (case map_of parent_relevance x of Some n \<Rightarrow> n | None \<Rightarrow> 0)"

fun collect_parents :: "pyval list \<Rightarrow> (pyval \<times> ref) list \<Rightarrow> ref list" where
  "collect_parents [] parent_docs_map = []"
| "collect_parents (parent_id # ids) parent_docs_map =
     (case map_of parent_docs_map parent_id of
        Some doc \<Rightarrow> doc # collect_parents ids parent_docs_map
      | None \<Rightarrow> collect_parents ids parent_docs_map)"

text \<open>
  The loop of \<open>get_parent_documents\<close> over \<open>child_chunks\<close>. The sorting and the
  \<open>return\<close> stand inside \<open>if parent_id:\<close>, so the first chunk with a true
  \<open>parent_id\<close> ends the call; a loop that runs to its end falls off the function,
  which then returns \<open>None\<close>. \<open>sorted(..., reverse=True)\<close> is stable, which is
  \<^const>\<open>sort_key\<close> on the negated count.
\<close>

fun scan_chunks :: "pipeline \<Rightarrow> ref list \<Rightarrow> (pyval \<times> int) list \<Rightarrow> (pyval \<times> ref) list \<Rightarrow> error + ref list option" where
  "scan_chunks s [] parent_relevance parent_docs_map = Inr None"
| "scan_chunks s (chunk # rest) parent_relevance parent_docs_map =
     (case metadata (heap s chunk) k_parent_id of
        None \<Rightarrow> scan_chunks s rest parent_relevance parent_docs_map
      | Some parent_id \<Rightarrow>
          if truthy parent_id then
            (let rel = AList.update parent_id (relevance parent_relevance parent_id + 1)
                         parent_relevance
             in case (if map_of parent_docs_map parent_id = None
                      then find_parent (map fst (parent_child_map s)) parent_id parent_docs_map
                      else Inr parent_docs_map) of
                  Inl e \<Rightarrow> Inl e
                | Inr docs_map \<Rightarrow>
                    (let sorted_parent_ids = sort_key (\<lambda>x. - relevance rel x) (map fst rel)
                     in Inr (Some (collect_parents sorted_parent_ids docs_map))))
          else scan_chunks s rest parent_relevance parent_docs_map)"

definition get_parent_documents :: "pipeline \<Rightarrow> ref list \<Rightarrow> error + ref list option" where
  "get_parent_documents s child_chunks = scan_chunks s child_chunks [] []"

section \<open>Notions of the specification\<close>

text \<open>
  The length of the longest run of consecutive occurrences of \<open>c\<close> in a list: at each
  position the run that starts there, and the greatest of them.
\<close>

fun longest_run :: "'a \<Rightarrow> 'a list \<Rightarrow> nat" where
  "longest_run c [] = 0"
| "longest_run c (x # xs) = max (length (takeWhile (\<lambda>y. y = c) (x # xs))) (longest_run c xs)"

text \<open>The ordinal scale of difficulty tiers, by run length (five or more is the hardest).\<close>

definition tier_of_run :: "nat \<Rightarrow> ustr" where
  "tier_of_run n =
     (if 5 \<le> n then very_hard else if n = 4 then hard else if n = 3 then medium
      else if n = 2 then fairly_easy else if n = 1 then easy else difficulty_unknown)"

text \<open>
  The specification's rule for the category: the path segments are taken in path order,
  and the first one that is a token of the mapping decides.
\<close>

fun category_by_path_order :: "ustr list \<Rightarrow> ustr" where
  "category_by_path_order [] = category_other"
| "category_by_path_order (seg # segs) =
     (case map_of category_mapping seg of
        Some label \<Rightarrow> label
      | None \<Rightarrow> category_by_path_order segs)"

text \<open>The category a document carries after enrichment, if enrichment gave one.\<close>

definition category_of :: "Document \<Rightarrow> pyval option" where
  "category_of doc = (case enhance_document doc of Inl e \<Rightarrow> None | Inr d \<Rightarrow> metadata d k_category)"

section \<open>Sample inputs\<close>

text \<open>A recipe file that lies under two category directories, as a loaded document.\<close>

definition two_token_path :: ustr where
  "two_token_path = ascii ''dishes/vegetable/meat_dish/stew.md''"

definition two_token_doc :: Document where
  "two_token_doc =
     \<lparr>page_content = ascii ''# stew'',
      metadata = Map.empty(k_source \<mapsto> PStr two_token_path, k_parent_id \<mapsto> PStr (ascii ''p0''),
                           k_doc_type \<mapsto> PStr (ascii ''parent''))\<rparr>"

text \<open>A content with an isolated star, some text, and a run of five stars.\<close>

definition starred_content :: ustr where
  "starred_content = [star, 32, 120, 32, star, star, star, star, star]"

text \<open>Identifiers for the examples, in place of random ones: \<open>id-0\<close>, \<open>id-1\<close>, ...\<close>

definition sample_ids :: "nat \<Rightarrow> ustr" where
  "sample_ids n = ascii ''id-'' @ [48 + n]"

text \<open>One file read by \<open>load_documents\<close>, before its metadata is enriched.\<close>

definition unread_state :: pipeline where
  "unread_state =
     snd (read_files [(two_token_path, starred_content)] [] (init (ascii ''dishes'') sample_ids))"

text \<open>
  A stand-in for the external splitter in the examples: one fragment for each non-empty
  line, with no metadata of its own, so an empty text has no fragment.
\<close>

definition sample_split :: splitter where
  "sample_split content =
     map (\<lambda>l. (l, Map.empty)) (filter (\<lambda>l. l \<noteq> []) (split_on 10 content))"

definition sample_files :: "(ustr \<times> ustr) list" where
  "sample_files =
     [(ascii ''dishes/soup/broth.md'', ascii ''# broth'' @ [10] @ ascii ''## steps''),
      (ascii ''dishes/drink/tea.md'', ascii ''# tea'')]"

text \<open>The pipeline after loading the two sample files, and after splitting them.\<close>

definition loaded_state :: pipeline where
  "loaded_state = snd (load_documents sample_files (init (ascii ''dishes'') sample_ids))"

definition chunked_state :: pipeline where
  "chunked_state = snd (chunk_documents sample_split loaded_state)"

text \<open>A file with no text at all, loaded.\<close>

definition blank_files :: "(ustr \<times> ustr) list" where
  "blank_files = [(ascii ''dishes/blank.md'', [])]"

definition blank_state :: pipeline where
  "blank_state = snd (load_documents blank_files (init (ascii ''dishes'') sample_ids))"

text \<open>
  A section as the retrieval layer may hand it back: its \<open>parent_id\<close> names no loaded
  document. Once in the pipeline that has split the sample files, once in a pipeline
  that has loaded nothing.
\<close>

definition stray_section :: Document where
  "stray_section =
     \<lparr>page_content = ascii ''lost'', metadata = Map.empty(k_parent_id \<mapsto> PStr (ascii ''gone''))\<rparr>"

definition stray_state :: pipeline where
  "stray_state = snd (new_document stray_section chunked_state)"

definition orphan_state :: pipeline where
  "orphan_state = snd (new_document stray_section (init (ascii ''dishes'') sample_ids))"

section \<open>Auxiliary notions for the splitting stage\<close>

text \<open>
  The precondition of splitting that loading establishes: every document of the module
  is an object of the store and carries a \<open>parent_id\<close>.
\<close>

definition loaded :: "pipeline \<Rightarrow> bool" where
  "loaded s =
     (\<forall>d \<in> set (documents s). d < next_ref s \<and> metadata (heap s d) k_parent_id \<noteq> None)"

text \<open>
  The dictionary of a chunk after the two \<open>update\<close> calls of the inner loop, from the
  splitter's own metadata, the parent's metadata, the identifier drawn and the index.
\<close>

definition child_metadata :: "dict \<Rightarrow> dict \<Rightarrow> ustr \<Rightarrow> pyval \<Rightarrow> nat \<Rightarrow> dict" where
  "child_metadata own parent child_id parent_id i =
     (own ++ parent) ++
       Map.empty(k_chunk_id \<mapsto> PStr child_id, k_parent_id \<mapsto> parent_id,
                 k_doc_type \<mapsto> PStr (ascii ''child''), k_chunk_index \<mapsto> PInt (int i))"

text \<open>
  The chunk objects that splitting the documents \<open>docs\<close> leaves in the store, in the
  order of emission, given the store \<open>h\<close> at the start, the identifier sequence \<open>gen\<close>
  and the number \<open>u\<close> of identifiers drawn before. It is used for documents that carry
  a \<open>parent_id\<close>, the others end the split with \<open>KeyError\<close>.
\<close>

definition chunks_of :: "splitter \<Rightarrow> (ref \<Rightarrow> Document) \<Rightarrow> (nat \<Rightarrow> ustr) \<Rightarrow> nat \<Rightarrow> ref \<Rightarrow> Document list" where
  "chunks_of sp h gen u d =
     map (\<lambda>(i, (content, own)).
            \<lparr>page_content = content,
             metadata = child_metadata own (metadata (h d)) (gen (u + i))
                          (the (metadata (h d) k_parent_id)) i\<rparr>)
         (enumerate 0 (sp (page_content (h d))))"

fun expected_chunks :: "splitter \<Rightarrow> (ref \<Rightarrow> Document) \<Rightarrow> (nat \<Rightarrow> ustr) \<Rightarrow> nat \<Rightarrow> ref list \<Rightarrow> Document list" where
  "expected_chunks sp h gen u [] = []"
| "expected_chunks sp h gen u (d # ds) =
     chunks_of sp h gen u d @
     expected_chunks sp h gen (u + length (sp (page_content (h d)))) ds"

text \<open>The document each emitted chunk comes from, in the order of emission.\<close>

definition owners :: "splitter \<Rightarrow> (ref \<Rightarrow> Document) \<Rightarrow> ref list \<Rightarrow> ref list" where
  "owners sp h docs = concat (map (\<lambda>d. replicate (length (sp (page_content (h d)))) d) docs)"

section \<open>Auxiliary notions for the aggregation stage\<close>

text \<open>A chunk takes part in the count when it has a \<open>parent_id\<close> that is true.\<close>

definition votes :: "pipeline \<Rightarrow> ref \<Rightarrow> bool" where
  "votes s chunk =
     (case metadata (heap s chunk) k_parent_id of
        None \<Rightarrow> False
      | Some parent_id \<Rightarrow> truthy parent_id)"

section \<open>Facts about the keys and labels\<close>

lemmas key_defs =
  k_source_def k_parent_id_def k_doc_type_def k_category_def k_dish_name_def
  k_difficulty_def k_chunk_id_def k_chunk_index_def k_batch_index_def k_chunk_size_def
  ascii_def

lemmas label_defs =
  very_hard_def hard_def medium_def fairly_easy_def easy_def difficulty_unknown_def
  category_other_def

section \<open>Difficulty inference\<close>

lemma prefix_replicate_takeWhile:
  "prefix (replicate n c) xs \<longleftrightarrow> n \<le> length (takeWhile (\<lambda>y. y = c) xs)"
proof (induction xs arbitrary: n)
  case Nil then show ?case by simp
next
  case (Cons x xs)
  show ?case
  proof (cases n)
    case 0 then show ?thesis by simp
  next
    case (Suc m)
    then show ?thesis using Cons.IH[of m] by auto
  qed
qed

lemma sublist_replicate_longest_run:
  "sublist (replicate n c) xs \<longleftrightarrow> n \<le> longest_run c xs"
proof (induction xs)
  case Nil then show ?case by simp
next
  case (Cons x xs)
  have "sublist (replicate n c) (x # xs) \<longleftrightarrow>
          prefix (replicate n c) (x # xs) \<or> sublist (replicate n c) xs"
    by (rule sublist_Cons_right)
  then show ?case using Cons.IH prefix_replicate_takeWhile[of n c "x # xs"]
    by (simp only: longest_run.simps) (auto simp: le_max_iff_disj)
qed

lemma longest_run_0: "longest_run c xs = 0 \<longleftrightarrow> c \<notin> set xs"
  by (induction xs) (auto simp: max_def)

lemma star_runs:
  "sublist [star, star, star, star, star] content \<longleftrightarrow> 5 \<le> longest_run star content"
  "sublist [star, star, star, star] content \<longleftrightarrow> 4 \<le> longest_run star content"
  "sublist [star, star, star] content \<longleftrightarrow> 3 \<le> longest_run star content"
  "sublist [star, star] content \<longleftrightarrow> 2 \<le> longest_run star content"
  "sublist [star] content \<longleftrightarrow> 1 \<le> longest_run star content"
  using sublist_replicate_longest_run[of 5 star content] sublist_replicate_longest_run[of 4 star content]
    sublist_replicate_longest_run[of 3 star content] sublist_replicate_longest_run[of 2 star content]
    sublist_replicate_longest_run[of 1 star content]
  by (simp_all add: numeral_eq_Suc)

lemma difficulty_tier: "difficulty content = tier_of_run (longest_run star content)"
  by (simp add: difficulty_def tier_of_run_def star_runs)

lemma difficulty_run_cases:
  "difficulty content = tier_of_run (longest_run star content) \<and>
   (difficulty content = very_hard) = sublist (replicate 5 star) content \<and>
   (difficulty content = difficulty_unknown) = (star \<notin> set content)"
proof -
  have a: "difficulty content = tier_of_run (longest_run star content)"
    by (rule difficulty_tier)
  have b: "(tier_of_run (longest_run star content) = very_hard) = (5 \<le> longest_run star content)"
    by (simp add: tier_of_run_def label_defs)
  have c: "(tier_of_run (longest_run star content) = difficulty_unknown) = (longest_run star content = 0)"
    by (auto simp: tier_of_run_def label_defs)
  show ?thesis
    by (simp only: a b c sublist_replicate_longest_run longest_run_0)
qed

section \<open>Aggregation on an empty collection\<close>

text \<open>
  C3. Called with an empty collection of sections, \<open>get_parent_documents\<close> runs no
  iteration of its loop, reaches the end of the function and returns \<open>None\<close>; it does
  not return the empty list. No error is raised.
\<close>

theorem get_parent_documents_empty_input:
  "get_parent_documents s [] = Inr None"
  by (simp add: get_parent_documents_def)

section \<open>Category inference\<close>

lemma category_loop_frame: "k \<noteq> k_category \<Longrightarrow> category_loop m ps md k = md k"
  by (induction m ps md rule: category_loop.induct) auto

lemma category_loop_no_match:
  "\<forall>t \<in> set (map fst m). t \<notin> set ps \<Longrightarrow> category_loop m ps md = md"
  by (induction m ps md rule: category_loop.induct) auto

lemma category_loop_first:
  "i < length m \<Longrightarrow> fst (m ! i) \<in> set ps \<Longrightarrow> \<forall>j<i. fst (m ! j) \<notin> set ps \<Longrightarrow>
   category_loop m ps md = md(k_category \<mapsto> PStr (snd (m ! i)))"
proof (induction m ps md arbitrary: i rule: category_loop.induct)
  case (1 path_parts md)
  then show ?case by simp
next
  case (2 key val rest path_parts md)
  show ?case
  proof (cases i)
    case 0
    with 2 show ?thesis by simp
  next
    case (Suc i')
    from 2(4) Suc have nokey: "key \<notin> set path_parts" by fastforce
    have "\<forall>j<i'. fst (rest ! j) \<notin> set path_parts"
      using 2(4) Suc by fastforce
    with 2 Suc nokey show ?thesis by simp
  qed
qed

lemma first_match_index:
  assumes "\<exists>t \<in> set (map fst m). t \<in> set ps"
  shows "\<exists>i<length m. fst (m ! i) \<in> set ps \<and> (\<forall>j<i. fst (m ! j) \<notin> set ps)"
proof -
  let ?P = "\<lambda>i. i < length m \<and> fst (m ! i) \<in> set ps"
  from assms obtain t where t: "t \<in> set (map fst m)" "t \<in> set ps" by blast
  from t(1) obtain i0 where "i0 < length m" "map fst m ! i0 = t"
    by (auto simp: in_set_conv_nth)
  with t(2) have "?P i0" by simp
  then have "?P (LEAST i. ?P i)" by (rule LeastI)
  moreover have "\<forall>j<(LEAST i. ?P i). fst (m ! j) \<notin> set ps"
  proof (intro allI impI)
    fix j assume j: "j < (LEAST i. ?P i)"
    then have "\<not> ?P j" by (rule not_less_Least)
    moreover from j \<open>?P (LEAST i. ?P i)\<close> have "j < length m" by simp
    ultimately show "fst (m ! j) \<notin> set ps" by simp
  qed
  ultimately show ?thesis by blast
qed

lemma enhance_document_category:
  assumes "\<forall>n. metadata doc k_source \<noteq> Some (PInt n)"
  shows "\<exists>d. enhance_document doc = Inr d \<and>
     metadata d k_category =
       category_loop category_mapping (parts (source_path doc))
         ((metadata doc)(k_category \<mapsto> PStr category_other)) k_category"
proof -
  have neq: "k_dish_name \<noteq> k_category" "k_difficulty \<noteq> k_category"
    by (simp_all add: key_defs)
  show ?thesis
    using assms neq
    by (cases "metadata doc k_source"; cases "the (metadata doc k_source)")
       (auto simp: enhance_document_def Let_def)
qed

text \<open>
  C5, as the code has it. Enrichment of a document whose \<open>source\<close> is a string (or
  missing) succeeds and gives the document exactly one category: the default label when
  no token of the mapping is among the segments of the path, and otherwise the label of
  the first token, in the order of the mapping, that is among the segments.
\<close>

theorem category_total_first_in_mapping_order:
  assumes "\<forall>n. metadata doc k_source \<noteq> Some (PInt n)"
  shows "\<exists>d c. enhance_document doc = Inr d \<and> metadata d k_category = Some (PStr c) \<and>
     ((\<forall>t \<in> set (map fst category_mapping). t \<notin> set (parts (source_path doc))) \<longrightarrow>
        c = category_other) \<and>
     ((\<exists>t \<in> set (map fst category_mapping). t \<in> set (parts (source_path doc))) \<longrightarrow>
        (\<exists>i<length category_mapping.
            fst (category_mapping ! i) \<in> set (parts (source_path doc)) \<and>
            (\<forall>j<i. fst (category_mapping ! j) \<notin> set (parts (source_path doc))) \<and>
            c = snd (category_mapping ! i)))"
proof -
  let ?ps = "parts (source_path doc)"
  let ?md = "(metadata doc)(k_category \<mapsto> PStr category_other)"
  from enhance_document_category[OF assms] obtain d where
    d: "enhance_document doc = Inr d"
       "metadata d k_category = category_loop category_mapping ?ps ?md k_category"
    by blast
  show ?thesis
  proof (cases "\<exists>t \<in> set (map fst category_mapping). t \<in> set ?ps")
    case False
    then have "category_loop category_mapping ?ps ?md = ?md"
      by (intro category_loop_no_match) blast
    with d False show ?thesis by auto
  next
    case True
    from first_match_index[OF True] obtain i where
      i: "i < length category_mapping" "fst (category_mapping ! i) \<in> set ?ps"
         "\<forall>j<i. fst (category_mapping ! j) \<notin> set ?ps"
      by blast
    from category_loop_first[OF i] have
      "category_loop category_mapping ?ps ?md = ?md(k_category \<mapsto> PStr (snd (category_mapping ! i)))" .
    with d have "metadata d k_category = Some (PStr (snd (category_mapping ! i)))" by simp
    with d(1) i True show ?thesis by blast
  qed
qed

lemma two_token_parts:
  "parts (source_path two_token_doc) =
     [ascii ''dishes'', ascii ''vegetable'', ascii ''meat_dish'', ascii ''stew.md'']"
  by (simp add: parts_def parse_path_def splitroot_def source_path_def two_token_doc_def
        two_token_path_def key_defs slash_def dot_def)

lemma category_of_loop:
  assumes "\<forall>n. metadata doc k_source \<noteq> Some (PInt n)"
  shows "category_of doc =
       category_loop category_mapping (parts (source_path doc))
         ((metadata doc)(k_category \<mapsto> PStr category_other)) k_category"
  using enhance_document_category[OF assms] by (auto simp: category_of_def)

lemma two_token_source: "metadata two_token_doc k_source = Some (PStr two_token_path)"
  by (simp add: two_token_doc_def key_defs)

lemma two_token_category: "category_of two_token_doc = Some (PStr [33636, 33756])"
proof -
  have "\<forall>n. metadata two_token_doc k_source \<noteq> Some (PInt n)"
    by (simp add: two_token_source)
  from category_of_loop[OF this] show ?thesis
    by (simp add: two_token_parts category_mapping_def ascii_def)
qed

text \<open>
  C5 as stated fails: for the path \<open>dishes/vegetable/meat_dish/stew.md\<close> the first
  matching segment in path order is \<open>vegetable\<close>, whose label is U+7D20 U+83DC, but
  enrichment assigns U+8364 U+83DC, the label of \<open>meat_dish\<close>, which stands first in
  the mapping.
\<close>

theorem category_path_order_counterexample:
  "category_of two_token_doc = Some (PStr [33636, 33756]) \<and>
   category_by_path_order (parts (source_path two_token_doc)) = [32032, 33756]"
  by (simp add: two_token_category two_token_parts category_mapping_def ascii_def)

text \<open>For that document the token at index 0 of the mapping decides.\<close>

theorem category_total_first_in_mapping_order_witness:
  "(\<forall>n. metadata two_token_doc k_source \<noteq> Some (PInt n)) \<and>
   (\<exists>d. enhance_document two_token_doc = Inr d \<and>
        metadata d k_category = Some (PStr (snd (category_mapping ! 0))))"
proof -
  let ?ps = "parts (source_path two_token_doc)"
  have src: "\<forall>n. metadata two_token_doc k_source \<noteq> Some (PInt n)"
    by (simp add: two_token_source)
  have meat: "fst (category_mapping ! 0) \<in> set ?ps"
    by (simp add: two_token_parts category_mapping_def)
  then have some: "\<exists>t \<in> set (map fst category_mapping). t \<in> set ?ps"
    by (auto simp: category_mapping_def)
  from category_total_first_in_mapping_order[OF src] some obtain d c i where
    d: "enhance_document two_token_doc = Inr d" "metadata d k_category = Some (PStr c)"
    and i: "\<forall>j<i. fst (category_mapping ! j) \<notin> set ?ps" "c = snd (category_mapping ! i)"
    by blast
  from i(1) meat have "i = 0" by (cases i) auto
  with d i(2) src show ?thesis by blast
qed

section \<open>What enrichment leaves alone\<close>

lemma enhance_document_frame:
  "enhance_document doc = Inr d \<Longrightarrow>
     page_content d = page_content doc \<and>
     (\<forall>k. k \<notin> {k_category, k_dish_name, k_difficulty} \<longrightarrow> metadata d k = metadata doc k)"
  by (auto simp: enhance_document_def Let_def category_loop_frame
           split: option.splits pyval.splits)

text \<open>
  C10. \<open>_enhance_metadata\<close> leaves the content of the document as it is, and its
  metadata under every key other than \<open>category\<close>, \<open>dish_name\<close> and \<open>difficulty\<close>;
  no other object and no field of the module changes.
\<close>

theorem enhance_metadata_frame:
  "page_content (heap (snd (enhance_metadata doc s)) doc) = page_content (heap s doc) \<and>
   (\<forall>k. k \<notin> {k_category, k_dish_name, k_difficulty} \<longrightarrow>
        metadata (heap (snd (enhance_metadata doc s)) doc) k = metadata (heap s doc) k) \<and>
   (\<forall>r. r \<noteq> doc \<longrightarrow> heap (snd (enhance_metadata doc s)) r = heap s r) \<and>
   (snd (enhance_metadata doc s))\<lparr>heap := heap s\<rparr> = s"
proof (cases "enhance_document (heap s doc)")
  case (Inl e)
  then show ?thesis by (simp add: enhance_metadata_def)
next
  case (Inr d)
  from enhance_document_frame[OF Inr] Inr show ?thesis
    by (simp add: enhance_metadata_def)
qed

lemma unread_state_heap:
  "heap unread_state 0 =
     \<lparr>page_content = starred_content,
      metadata = Map.empty(k_source \<mapsto> PStr two_token_path, k_parent_id \<mapsto> PStr (sample_ids 0),
                           k_doc_type \<mapsto> PStr (ascii ''parent''))\<rparr>"
  by (simp add: unread_state_def init_def uuid4_def new_document_def)

text \<open>
  On the freshly read file enrichment runs, sets the difficulty, and keeps \<open>source\<close>
  and the content.
\<close>

theorem enhance_metadata_frame_witness:
  "k_source \<notin> {k_category, k_dish_name, k_difficulty} \<and>
   fst (enhance_metadata 0 unread_state) = Inr () \<and>
   metadata (heap (snd (enhance_metadata 0 unread_state)) 0) k_source = Some (PStr two_token_path) \<and>
   metadata (heap (snd (enhance_metadata 0 unread_state)) 0) k_difficulty = Some (PStr very_hard) \<and>
   page_content (heap (snd (enhance_metadata 0 unread_state)) 0) = starred_content"
proof -
  have key: "k_source \<notin> {k_category, k_dish_name, k_difficulty}"
    by (simp add: key_defs)
  have src: "metadata (heap unread_state 0) k_source = Some (PStr two_token_path)"
    by (simp add: unread_state_heap key_defs)
  have ran: "fst (enhance_metadata 0 unread_state) = Inr ()"
    by (simp add: enhance_metadata_def enhance_document_def src Let_def)
  have diff: "metadata (heap (snd (enhance_metadata 0 unread_state)) 0) k_difficulty =
                Some (PStr (difficulty starred_content))"
    by (simp add: enhance_metadata_def enhance_document_def src Let_def)
       (simp add: unread_state_heap)
  have hardest: "difficulty starred_content = very_hard"
    by (simp add: difficulty_tier tier_of_run_def starred_content_def star_def)
  from enhance_metadata_frame[of 0 unread_state] key src
  have "metadata (heap (snd (enhance_metadata 0 unread_state)) 0) k_source = Some (PStr two_token_path)"
    and "page_content (heap (snd (enhance_metadata 0 unread_state)) 0) = starred_content"
    by (simp_all add: unread_state_heap)
  with key ran diff hardest show ?thesis by simp
qed

section \<open>The difficulty an enriched document carries\<close>

lemma enhance_document_difficulty:
  assumes "\<forall>n. metadata doc k_source \<noteq> Some (PInt n)"
  shows "\<exists>d. enhance_document doc = Inr d \<and>
     metadata d k_difficulty = Some (PStr (difficulty (page_content doc)))"
  using assms
  by (cases "metadata doc k_source"; cases "the (metadata doc k_source)")
     (auto simp: enhance_document_def Let_def)

text \<open>
  C9. \<open>_enhance_metadata\<close> on a document whose \<open>source\<close> is a string (or missing)
  succeeds and stores, under the key \<open>difficulty\<close>, the tier of the longest run of
  consecutive stars in the document's content, five or more counting as five: the
  hardest tier exactly when the content holds a run of five stars (whatever other stars
  it holds), and the unknown tier exactly when the content holds no star at all.
\<close>

theorem difficulty_longest_run_wins:
  assumes "\<forall>n. metadata (heap s r) k_source \<noteq> Some (PInt n)"
  shows "fst (enhance_metadata r s) = Inr () \<and>
     enhance_document (heap s r) = Inr (heap (snd (enhance_metadata r s)) r) \<and>
     metadata (heap (snd (enhance_metadata r s)) r) k_difficulty =
       Some (PStr (tier_of_run (longest_run star (page_content (heap s r))))) \<and>
     (metadata (heap (snd (enhance_metadata r s)) r) k_difficulty = Some (PStr very_hard)) =
       sublist (replicate 5 star) (page_content (heap s r)) \<and>
     (metadata (heap (snd (enhance_metadata r s)) r) k_difficulty = Some (PStr difficulty_unknown)) =
       (star \<notin> set (page_content (heap s r)))"
proof -
  let ?content = "page_content (heap s r)"
  from enhance_document_difficulty[OF assms] obtain d where
    d: "enhance_document (heap s r) = Inr d"
    and diff: "metadata d k_difficulty = Some (PStr (difficulty ?content))"
    by blast
  from d have run: "fst (enhance_metadata r s) = Inr ()"
    and obj: "heap (snd (enhance_metadata r s)) r = d"
    by (simp_all add: enhance_metadata_def)
  from difficulty_run_cases[of ?content] have
    a: "difficulty ?content = tier_of_run (longest_run star ?content)"
    and b: "(difficulty ?content = very_hard) = sublist (replicate 5 star) ?content"
    and c: "(difficulty ?content = difficulty_unknown) = (star \<notin> set ?content)"
    by blast+
  have "metadata d k_difficulty = Some (PStr (tier_of_run (longest_run star ?content)))"
    using diff a by simp
  moreover have "(metadata d k_difficulty = Some (PStr very_hard)) =
      sublist (replicate 5 star) ?content"
    using diff b by simp
  moreover have "(metadata d k_difficulty = Some (PStr difficulty_unknown)) =
      (star \<notin> set ?content)"
    using diff c by simp
  ultimately show ?thesis using run d by (simp only: obj)
qed

text \<open>
  The file read into \<open>unread_state\<close> holds an isolated star and later a run of five:
  enrichment runs on it and stores the hardest tier.
\<close>

theorem difficulty_longest_run_wins_witness:
  "(\<forall>n. metadata (heap unread_state 0) k_source \<noteq> Some (PInt n)) \<and>
   page_content (heap unread_state 0) = starred_content \<and>
   sublist [star] starred_content \<and> longest_run star starred_content = 5 \<and>
   fst (enhance_metadata 0 unread_state) = Inr () \<and>
   metadata (heap (snd (enhance_metadata 0 unread_state)) 0) k_difficulty = Some (PStr very_hard)"
proof -
  have src: "\<forall>n. metadata (heap unread_state 0) k_source \<noteq> Some (PInt n)"
    by (simp add: unread_state_heap key_defs)
  have pc: "page_content (heap unread_state 0) = starred_content"
    by (simp add: unread_state_heap)
  have five: "sublist (replicate 5 star) starred_content"
    by (simp add: starred_content_def star_def numeral_eq_Suc sublist_Cons_right)
  have run: "longest_run star starred_content = 5"
    by (simp add: starred_content_def star_def)
  have single: "sublist [star] starred_content"
    by (simp add: starred_content_def star_def sublist_Cons_right)
  note t = difficulty_longest_run_wins[OF src, unfolded pc]
  from t have ran: "fst (enhance_metadata 0 unread_state) = Inr ()" by blast
  from t five have
    "metadata (heap (snd (enhance_metadata 0 unread_state)) 0) k_difficulty = Some (PStr very_hard)"
    by blast
  with src pc run single ran show ?thesis by (intro conjI)
qed

section \<open>The store during splitting\<close>

lemma new_document_simps:
  "fst (new_document d s) = next_ref s"
  "next_ref (snd (new_document d s)) = Suc (next_ref s)"
  "heap (snd (new_document d s)) = (heap s)(next_ref s := d)"
  "documents (snd (new_document d s)) = documents s"
  "chunks (snd (new_document d s)) = chunks s"
  "parent_child_map (snd (new_document d s)) = parent_child_map s"
  "uuid_source (snd (new_document d s)) = uuid_source s"
  "uuid_drawn (snd (new_document d s)) = uuid_drawn s"
  by (simp_all add: new_document_def)

lemma uuid4_simps:
  "fst (uuid4 s) = uuid_source s (uuid_drawn s)"
  "next_ref (snd (uuid4 s)) = next_ref s"
  "heap (snd (uuid4 s)) = heap s"
  "documents (snd (uuid4 s)) = documents s"
  "chunks (snd (uuid4 s)) = chunks s"
  "parent_child_map (snd (uuid4 s)) = parent_child_map s"
  "uuid_source (snd (uuid4 s)) = uuid_source s"
  "uuid_drawn (snd (uuid4 s)) = Suc (uuid_drawn s)"
  by (simp_all add: uuid4_def)

lemma update_metadata_simps:
  "next_ref (update_metadata r f s) = next_ref s"
  "heap (update_metadata r f s) = (heap s)(r := (heap s r)\<lparr>metadata := f (metadata (heap s r))\<rparr>)"
  "documents (update_metadata r f s) = documents s"
  "chunks (update_metadata r f s) = chunks s"
  "parent_child_map (update_metadata r f s) = parent_child_map s"
  "uuid_source (update_metadata r f s) = uuid_source s"
  "uuid_drawn (update_metadata r f s) = uuid_drawn s"
  by (simp_all add: update_metadata_def)

lemma new_documents_Cons:
  "new_documents ((content, md) # frags) s =
     (next_ref s # fst (new_documents frags (snd (new_document \<lparr>page_content = content, metadata = md\<rparr> s))),
      snd (new_documents frags (snd (new_document \<lparr>page_content = content, metadata = md\<rparr> s))))"
  by (simp add: split_beta new_document_simps)

lemma new_documents_fields:
  "next_ref (snd (new_documents frags s)) = next_ref s + length frags \<and>
   documents (snd (new_documents frags s)) = documents s \<and>
   parent_child_map (snd (new_documents frags s)) = parent_child_map s \<and>
   uuid_source (snd (new_documents frags s)) = uuid_source s \<and>
   uuid_drawn (snd (new_documents frags s)) = uuid_drawn s"
proof (induction frags arbitrary: s)
  case Nil show ?case by simp
next
  case (Cons f frags)
  obtain content md where f: "f = (content, md)" by (cases f)
  show ?case
    unfolding f new_documents_Cons snd_conv
    using Cons[of "snd (new_document \<lparr>page_content = content, metadata = md\<rparr> s)"]
    by (simp add: new_document_simps)
qed

lemma new_documents_refs:
  "fst (new_documents frags s) = [next_ref s ..< next_ref s + length frags]"
proof (induction frags arbitrary: s)
  case Nil show ?case by simp
next
  case (Cons f frags)
  obtain content md where f: "f = (content, md)" by (cases f)
  show ?case
    unfolding f new_documents_Cons fst_conv
    using Cons[of "snd (new_document \<lparr>page_content = content, metadata = md\<rparr> s)"]
    by (simp add: new_document_simps upt_rec)
qed

lemma new_documents_old:
  "r < next_ref s \<Longrightarrow> heap (snd (new_documents frags s)) r = heap s r"
proof (induction frags arbitrary: s)
  case Nil show ?case by simp
next
  case (Cons f frags)
  obtain content md where f: "f = (content, md)" by (cases f)
  show ?case
    unfolding f new_documents_Cons snd_conv
    using Cons.prems Cons.IH[of "snd (new_document \<lparr>page_content = content, metadata = md\<rparr> s)"]
    by (simp add: new_document_simps)
qed

lemma new_documents_new:
  "i < length frags \<Longrightarrow>
   heap (snd (new_documents frags s)) (next_ref s + i) =
     \<lparr>page_content = fst (frags ! i), metadata = snd (frags ! i)\<rparr>"
proof (induction frags arbitrary: s i)
  case Nil then show ?case by simp
next
  case (Cons f frags)
  obtain content md where f: "f = (content, md)" by (cases f)
  let ?s1 = "snd (new_document \<lparr>page_content = content, metadata = md\<rparr> s)"
  show ?case
  proof (cases i)
    case 0
    have "heap (snd (new_documents frags ?s1)) (next_ref s) = heap ?s1 (next_ref s)"
      by (rule new_documents_old) (simp add: new_document_simps)
    with 0 show ?thesis
      unfolding f new_documents_Cons snd_conv by (simp add: new_document_simps)
  next
    case (Suc j)
    with Cons.prems have "j < length frags" by simp
    from Cons.IH[OF this, of ?s1] Suc show ?thesis
      unfolding f new_documents_Cons snd_conv by (simp add: new_document_simps)
  qed
qed

lemma link_chunk_fields:
  "next_ref (link_chunk doc pid i c s) = next_ref s \<and>
   documents (link_chunk doc pid i c s) = documents s \<and>
   uuid_source (link_chunk doc pid i c s) = uuid_source s \<and>
   uuid_drawn (link_chunk doc pid i c s) = Suc (uuid_drawn s) \<and>
   parent_child_map (link_chunk doc pid i c s) \<noteq> []"
  by (cases "parent_child_map s")
     (simp_all add: link_chunk_def split_beta Let_def uuid4_simps update_metadata_simps)

lemma link_chunk_other:
  "r \<noteq> c \<Longrightarrow> heap (link_chunk doc pid i c s) r = heap s r"
  by (simp add: link_chunk_def split_beta Let_def uuid4_simps update_metadata_simps)

lemma link_chunk_self:
  "c \<noteq> doc \<Longrightarrow>
   heap (link_chunk doc pid i c s) c =
     \<lparr>page_content = page_content (heap s c),
      metadata = child_metadata (metadata (heap s c)) (metadata (heap s doc))
                   (uuid_source s (uuid_drawn s)) pid i\<rparr>"
  by (simp add: link_chunk_def split_beta Let_def uuid4_simps update_metadata_simps
        child_metadata_def)

lemma link_chunks_fields:
  "next_ref (link_chunks doc pid i cs s) = next_ref s \<and>
   documents (link_chunks doc pid i cs s) = documents s \<and>
   uuid_source (link_chunks doc pid i cs s) = uuid_source s \<and>
   uuid_drawn (link_chunks doc pid i cs s) = uuid_drawn s + length cs"
  by (induction cs arbitrary: i s) (simp_all add: link_chunk_fields)

lemma link_chunks_index:
  "cs \<noteq> [] \<or> parent_child_map s \<noteq> [] \<Longrightarrow> parent_child_map (link_chunks doc pid i cs s) \<noteq> []"
  by (induction cs arbitrary: i s) (simp_all add: link_chunk_fields)

lemma link_chunks_other:
  "r \<notin> set cs \<Longrightarrow> heap (link_chunks doc pid i cs s) r = heap s r"
  by (induction cs arbitrary: i s) (simp_all add: link_chunk_other)

lemma link_chunks_nth:
  "distinct cs \<Longrightarrow> doc \<notin> set cs \<Longrightarrow> j < length cs \<Longrightarrow>
   heap (link_chunks doc pid i cs s) (cs ! j) =
     \<lparr>page_content = page_content (heap s (cs ! j)),
      metadata = child_metadata (metadata (heap s (cs ! j))) (metadata (heap s doc))
                   (uuid_source s (uuid_drawn s + j)) pid (i + j)\<rparr>"
proof (induction cs arbitrary: i s j)
  case Nil then show ?case by simp
next
  case (Cons c cs)
  let ?s1 = "link_chunk doc pid i c s"
  from Cons.prems have c: "c \<notin> set cs" "c \<noteq> doc" "distinct cs" "doc \<notin> set cs" by auto
  show ?case
  proof (cases j)
    case 0
    have "heap (link_chunks doc pid (Suc i) cs ?s1) c = heap ?s1 c"
      using c(1) by (rule link_chunks_other)
    with 0 c(2) show ?thesis by (simp add: link_chunk_self)
  next
    case (Suc j')
    with Cons.prems have j': "j' < length cs" by simp
    then have neq: "cs ! j' \<noteq> c" using c(1) by (metis nth_mem)
    have doc: "heap ?s1 doc = heap s doc" using c(2) by (simp add: link_chunk_other)
    have old: "heap ?s1 (cs ! j') = heap s (cs ! j')" using neq by (simp add: link_chunk_other)
    from Cons.IH[OF c(3) c(4) j', of "Suc i" ?s1] Suc doc old show ?thesis
      by (simp add: link_chunk_fields)
  qed
qed

lemma length_chunks_of [simp]:
  "length (chunks_of sp h gen u d) = length (sp (page_content (h d)))"
  by (simp add: chunks_of_def)

lemma expected_chunks_cong:
  "\<forall>d \<in> set docs. h d = h' d \<Longrightarrow>
   expected_chunks sp h gen u docs = expected_chunks sp h' gen u docs"
  by (induction docs arbitrary: u) (simp_all add: chunks_of_def)

lemma split_step_chunks:
  assumes d: "d < next_ref s"
    and frags_def: "frags = sp (page_content (heap s d))"
    and s1_def: "s1 = snd (new_documents frags s)"
    and s2_def: "s2 = link_chunks d pid 0 [next_ref s ..< next_ref s + length frags] s1"
    and pid: "metadata (heap s d) k_parent_id = Some pid"
  shows "map (heap s2) [next_ref s ..< next_ref s + length frags] =
           chunks_of sp (heap s) (uuid_source s) (uuid_drawn s) d"
proof (rule nth_equalityI)
  show "length (map (heap s2) [next_ref s ..< next_ref s + length frags]) =
        length (chunks_of sp (heap s) (uuid_source s) (uuid_drawn s) d)"
    by (simp add: frags_def)
next
  fix j assume "j < length (map (heap s2) [next_ref s ..< next_ref s + length frags])"
  then have j: "j < length frags" by simp
  let ?cs = "[next_ref s ..< next_ref s + length frags]"
  have nth: "?cs ! j = next_ref s + j" using j by simp
  have dist: "distinct ?cs" by simp
  have notin: "d \<notin> set ?cs" using d by simp
  have jl: "j < length ?cs" using j by simp
  have h1d: "heap s1 d = heap s d"
    unfolding s1_def using d by (rule new_documents_old)
  have h1j: "heap s1 (next_ref s + j) = \<lparr>page_content = fst (frags ! j), metadata = snd (frags ! j)\<rparr>"
    unfolding s1_def using j by (rule new_documents_new)
  have u1: "uuid_source s1 = uuid_source s" "uuid_drawn s1 = uuid_drawn s"
    unfolding s1_def by (simp_all add: new_documents_fields)
  have "heap s2 (?cs ! j) =
     \<lparr>page_content = page_content (heap s1 (?cs ! j)),
      metadata = child_metadata (metadata (heap s1 (?cs ! j))) (metadata (heap s1 d))
                   (uuid_source s1 (uuid_drawn s1 + j)) pid (0 + j)\<rparr>"
    unfolding s2_def using dist notin jl by (rule link_chunks_nth)
  then have "heap s2 (next_ref s + j) =
     \<lparr>page_content = fst (frags ! j),
      metadata = child_metadata (snd (frags ! j)) (metadata (heap s d))
                   (uuid_source s (uuid_drawn s + j)) pid j\<rparr>"
    by (simp only: nth h1d h1j u1) simp
  moreover have "chunks_of sp (heap s) (uuid_source s) (uuid_drawn s) d ! j =
     \<lparr>page_content = fst (frags ! j),
      metadata = child_metadata (snd (frags ! j)) (metadata (heap s d))
                   (uuid_source s (uuid_drawn s + j)) pid j\<rparr>"
    using j pid by (simp add: chunks_of_def frags_def nth_enumerate_eq split_beta)
  ultimately show "map (heap s2) ?cs ! j = chunks_of sp (heap s) (uuid_source s) (uuid_drawn s) d ! j"
    using j by simp
qed

lemma split_loop_Cons:
  assumes "d < next_ref s" "metadata (heap s d) k_parent_id = Some pid"
  shows "split_loop sp (d # docs) acc s =
     split_loop sp docs (acc @ [next_ref s ..< next_ref s + length (sp (page_content (heap s d)))])
       (link_chunks d pid 0 [next_ref s ..< next_ref s + length (sp (page_content (heap s d)))]
          (snd (new_documents (sp (page_content (heap s d))) s)))"
  using assms by (simp add: split_beta new_documents_refs new_documents_old)

lemma split_loop_spec:
  assumes "\<forall>d \<in> set docs. d < next_ref s \<and> metadata (heap s d) k_parent_id \<noteq> None"
  shows "\<exists>s'. split_loop sp docs acc s = (Inr (acc @ [next_ref s ..< next_ref s']), s') \<and>
     next_ref s' =
       next_ref s + length (expected_chunks sp (heap s) (uuid_source s) (uuid_drawn s) docs) \<and>
     map (heap s') [next_ref s ..< next_ref s'] =
       expected_chunks sp (heap s) (uuid_source s) (uuid_drawn s) docs \<and>
     (\<forall>r<next_ref s. heap s' r = heap s r) \<and>
     documents s' = documents s \<and>
     (next_ref s < next_ref s' \<or> parent_child_map s \<noteq> [] \<longrightarrow> parent_child_map s' \<noteq> [])"
  using assms
proof (induction docs arbitrary: acc s)
  case Nil
  show ?case by simp
next
  case (Cons d docs)
  let ?n = "next_ref s"
  let ?frags = "sp (page_content (heap s d))"
  let ?k = "length ?frags"
  let ?s1 = "snd (new_documents ?frags s)"
  from Cons.prems obtain pid where d: "d < ?n" and pid: "metadata (heap s d) k_parent_id = Some pid"
    by auto
  let ?s2 = "link_chunks d pid 0 [?n ..< ?n + ?k] ?s1"
  have step: "split_loop sp (d # docs) acc s = split_loop sp docs (acc @ [?n ..< ?n + ?k]) ?s2"
    using d pid by (rule split_loop_Cons)
  have n2: "next_ref ?s2 = ?n + ?k"
    by (simp add: link_chunks_fields new_documents_fields)
  have u2: "uuid_source ?s2 = uuid_source s" "uuid_drawn ?s2 = uuid_drawn s + ?k"
    by (simp_all add: link_chunks_fields new_documents_fields)
  have docs2: "documents ?s2 = documents s"
    by (simp add: link_chunks_fields new_documents_fields)
  have old2: "heap ?s2 r = heap s r" if "r < ?n" for r
  proof -
    from that have "r \<notin> set [?n ..< ?n + ?k]" by simp
    then have "heap ?s2 r = heap ?s1 r" by (rule link_chunks_other)
    also from that have "\<dots> = heap s r" by (rule new_documents_old)
    finally show ?thesis .
  qed
  have idx2: "parent_child_map ?s2 \<noteq> []" if "0 < ?k \<or> parent_child_map s \<noteq> []"
    using that by (intro link_chunks_index) (auto simp: new_documents_fields)
  have new2: "map (heap ?s2) [?n ..< ?n + ?k] =
                chunks_of sp (heap s) (uuid_source s) (uuid_drawn s) d"
    using d refl refl refl pid by (rule split_step_chunks)
  have pre: "\<forall>d' \<in> set docs. d' < next_ref ?s2 \<and> metadata (heap ?s2 d') k_parent_id \<noteq> None"
    using Cons.prems n2 old2 by auto
  have same: "expected_chunks sp (heap ?s2) (uuid_source s) (uuid_drawn s + ?k) docs =
              expected_chunks sp (heap s) (uuid_source s) (uuid_drawn s + ?k) docs"
    using Cons.prems old2 by (intro expected_chunks_cong) auto
  from Cons.IH[OF pre, of "acc @ [?n ..< ?n + ?k]"] obtain s' where
    res: "split_loop sp docs (acc @ [?n ..< ?n + ?k]) ?s2 =
            (Inr ((acc @ [?n ..< ?n + ?k]) @ [next_ref ?s2 ..< next_ref s']), s')"
    and n': "next_ref s' = next_ref ?s2 +
               length (expected_chunks sp (heap ?s2) (uuid_source ?s2) (uuid_drawn ?s2) docs)"
    and new': "map (heap s') [next_ref ?s2 ..< next_ref s'] =
               expected_chunks sp (heap ?s2) (uuid_source ?s2) (uuid_drawn ?s2) docs"
    and old': "\<forall>r<next_ref ?s2. heap s' r = heap ?s2 r"
    and docs': "documents s' = documents ?s2"
    and idx': "next_ref ?s2 < next_ref s' \<or> parent_child_map ?s2 \<noteq> [] \<longrightarrow> parent_child_map s' \<noteq> []"
    by blast
  have le: "?n + ?k \<le> next_ref s'" using n' n2 by simp
  have upt: "[?n ..< next_ref s'] = [?n ..< ?n + ?k] @ [?n + ?k ..< next_ref s']"
    using le by (metis le_add1 upt_add_eq_append le_Suc_ex)
  have first: "map (heap s') [?n ..< ?n + ?k] = map (heap ?s2) [?n ..< ?n + ?k]"
    using old' n2 by simp
  have "split_loop sp (d # docs) acc s = (Inr (acc @ [?n ..< next_ref s']), s')"
    using step res upt n2 by simp
  moreover have "next_ref s' = ?n + length (expected_chunks sp (heap s) (uuid_source s) (uuid_drawn s) (d # docs))"
    using n' n2 u2 same by simp
  moreover have "map (heap s') [?n ..< next_ref s'] =
                 expected_chunks sp (heap s) (uuid_source s) (uuid_drawn s) (d # docs)"
    using new' n2 u2 same first new2 upt by simp
  moreover have "\<forall>r<?n. heap s' r = heap s r"
    using old' old2 n2 by simp
  moreover have "documents s' = documents s" using docs' docs2 by simp
  moreover have "next_ref s < next_ref s' \<or> parent_child_map s \<noteq> [] \<longrightarrow> parent_child_map s' \<noteq> []"
  proof
    assume a: "next_ref s < next_ref s' \<or> parent_child_map s \<noteq> []"
    show "parent_child_map s' \<noteq> []"
    proof (cases "0 < ?k \<or> parent_child_map s \<noteq> []")
      case True
      from idx2[OF True] idx' show ?thesis by simp
    next
      case False
      with a n2 have "next_ref ?s2 < next_ref s'" by simp
      with idx' show ?thesis by simp
    qed
  qed
  ultimately show ?case by blast
qed

section \<open>Loading establishes the precondition of splitting\<close>

lemma enhance_metadata_ok:
  assumes "\<forall>n. metadata (heap s d) k_source \<noteq> Some (PInt n)"
  shows "\<exists>d'. enhance_metadata d s = (Inr (), s\<lparr>heap := (heap s)(d := d')\<rparr>) \<and>
     page_content d' = page_content (heap s d) \<and>
     (\<forall>k. k \<notin> {k_category, k_dish_name, k_difficulty} \<longrightarrow> metadata d' k = metadata (heap s d) k)"
proof -
  from enhance_document_category[OF assms] obtain d' where d': "enhance_document (heap s d) = Inr d'"
    by blast
  from enhance_document_frame[OF d'] d' show ?thesis
    by (intro exI[of _ d']) (simp add: enhance_metadata_def)
qed

lemma enhance_all_ok:
  assumes "\<forall>d \<in> set ds. \<forall>n. metadata (heap s d) k_source \<noteq> Some (PInt n)"
  shows "\<exists>s'. enhance_all ds s = (Inr (), s') \<and> s'\<lparr>heap := heap s\<rparr> = s \<and>
     (\<forall>r. page_content (heap s' r) = page_content (heap s r) \<and>
          (\<forall>k. k \<notin> {k_category, k_dish_name, k_difficulty} \<longrightarrow>
               metadata (heap s' r) k = metadata (heap s r) k))"
  using assms
proof (induction ds arbitrary: s)
  case Nil
  show ?case by simp
next
  case (Cons d ds)
  have src: "k_source \<notin> {k_category, k_dish_name, k_difficulty}" by (simp add: key_defs)
  from Cons.prems have "\<forall>n. metadata (heap s d) k_source \<noteq> Some (PInt n)" by simp
  from enhance_metadata_ok[OF this] obtain d' where
    step: "enhance_metadata d s = (Inr (), s\<lparr>heap := (heap s)(d := d')\<rparr>)"
    and pc: "page_content d' = page_content (heap s d)"
    and md: "\<forall>k. k \<notin> {k_category, k_dish_name, k_difficulty} \<longrightarrow> metadata d' k = metadata (heap s d) k"
    by blast
  let ?s1 = "s\<lparr>heap := (heap s)(d := d')\<rparr>"
  have frame1: "page_content (heap ?s1 r) = page_content (heap s r) \<and>
          (\<forall>k. k \<notin> {k_category, k_dish_name, k_difficulty} \<longrightarrow>
               metadata (heap ?s1 r) k = metadata (heap s r) k)" for r
    using pc md by simp
  have "\<forall>d2 \<in> set ds. \<forall>n. metadata (heap ?s1 d2) k_source \<noteq> Some (PInt n)"
  proof (intro ballI allI)
    fix d2 n assume "d2 \<in> set ds"
    with Cons.prems have "metadata (heap s d2) k_source \<noteq> Some (PInt n)" by simp
    moreover from frame1[of d2] src have "metadata (heap ?s1 d2) k_source = metadata (heap s d2) k_source"
      by blast
    ultimately show "metadata (heap ?s1 d2) k_source \<noteq> Some (PInt n)" by simp
  qed
  from Cons.IH[OF this] obtain s' where
    rest: "enhance_all ds ?s1 = (Inr (), s')" and eq: "s'\<lparr>heap := heap ?s1\<rparr> = ?s1"
    and frame2: "\<forall>r. page_content (heap s' r) = page_content (heap ?s1 r) \<and>
          (\<forall>k. k \<notin> {k_category, k_dish_name, k_difficulty} \<longrightarrow>
               metadata (heap s' r) k = metadata (heap ?s1 r) k)"
    by blast
  have "enhance_all (d # ds) s = (Inr (), s')" using step rest by simp
  moreover have "s'\<lparr>heap := heap s\<rparr> = s"
  proof -
    from eq have "(s'\<lparr>heap := heap ?s1\<rparr>)\<lparr>heap := heap s\<rparr> = ?s1\<lparr>heap := heap s\<rparr>" by simp
    then show ?thesis by simp
  qed
  moreover have "\<forall>r. page_content (heap s' r) = page_content (heap s r) \<and>
          (\<forall>k. k \<notin> {k_category, k_dish_name, k_difficulty} \<longrightarrow>
               metadata (heap s' r) k = metadata (heap s r) k)"
    using frame1 frame2 by metis
  ultimately show ?case by blast
qed

lemma read_files_Cons:
  "read_files ((md_file, content) # files) docs s =
     read_files files (docs @ [next_ref s])
       (snd (new_document
          \<lparr>page_content = content,
           metadata = Map.empty(k_source \<mapsto> PStr md_file,
                        k_parent_id \<mapsto> PStr (uuid_source s (uuid_drawn s)),
                        k_doc_type \<mapsto> PStr (ascii ''parent''))\<rparr>
          (snd (uuid4 s))))"
  by (simp add: split_beta new_document_simps uuid4_simps)

lemma read_files_spec:
  "\<exists>s'. read_files files docs s = (docs @ [next_ref s ..< next_ref s + length files], s') \<and>
     next_ref s' = next_ref s + length files \<and>
     uuid_source s' = uuid_source s \<and> uuid_drawn s' = uuid_drawn s + length files \<and>
     parent_child_map s' = parent_child_map s \<and>
     (\<forall>r<next_ref s. heap s' r = heap s r) \<and>
     (\<forall>i<length files. heap s' (next_ref s + i) =
        \<lparr>page_content = snd (files ! i),
         metadata = Map.empty(k_source \<mapsto> PStr (fst (files ! i)),
                      k_parent_id \<mapsto> PStr (uuid_source s (uuid_drawn s + i)),
                      k_doc_type \<mapsto> PStr (ascii ''parent''))\<rparr>)"
proof (induction files arbitrary: docs s)
  case Nil
  show ?case by simp
next
  case (Cons f files)
  obtain md_file content where f: "f = (md_file, content)" by (cases f)
  let ?d = "\<lparr>page_content = content,
           metadata = Map.empty(k_source \<mapsto> PStr md_file,
                        k_parent_id \<mapsto> PStr (uuid_source s (uuid_drawn s)),
                        k_doc_type \<mapsto> PStr (ascii ''parent''))\<rparr>"
  let ?s1 = "snd (new_document ?d (snd (uuid4 s)))"
  have s1: "next_ref ?s1 = Suc (next_ref s)" "uuid_source ?s1 = uuid_source s"
    "uuid_drawn ?s1 = Suc (uuid_drawn s)" "parent_child_map ?s1 = parent_child_map s"
    "heap ?s1 = (heap s)(next_ref s := ?d)"
    by (simp_all add: new_document_simps uuid4_simps)
  from Cons.IH[of "docs @ [next_ref s]" ?s1] obtain s' where
    res: "read_files files (docs @ [next_ref s]) ?s1 =
            ((docs @ [next_ref s]) @ [next_ref ?s1 ..< next_ref ?s1 + length files], s')"
    and n': "next_ref s' = next_ref ?s1 + length files"
    and u': "uuid_source s' = uuid_source ?s1" "uuid_drawn s' = uuid_drawn ?s1 + length files"
    and idx': "parent_child_map s' = parent_child_map ?s1"
    and old': "\<forall>r<next_ref ?s1. heap s' r = heap ?s1 r"
    and new': "\<forall>i<length files. heap s' (next_ref ?s1 + i) =
        \<lparr>page_content = snd (files ! i),
         metadata = Map.empty(k_source \<mapsto> PStr (fst (files ! i)),
                      k_parent_id \<mapsto> PStr (uuid_source ?s1 (uuid_drawn ?s1 + i)),
                      k_doc_type \<mapsto> PStr (ascii ''parent''))\<rparr>"
    by blast
  have "read_files (f # files) docs s =
          (docs @ [next_ref s ..< next_ref s + length (f # files)], s')"
    unfolding f read_files_Cons using res s1(1) by (simp add: upt_rec)
  moreover have "\<forall>r<next_ref s. heap s' r = heap s r"
    using old' s1 by simp
  moreover have "\<forall>i<length (f # files). heap s' (next_ref s + i) =
        \<lparr>page_content = snd ((f # files) ! i),
         metadata = Map.empty(k_source \<mapsto> PStr (fst ((f # files) ! i)),
                      k_parent_id \<mapsto> PStr (uuid_source s (uuid_drawn s + i)),
                      k_doc_type \<mapsto> PStr (ascii ''parent''))\<rparr>"
  proof (intro allI impI)
    fix i assume i: "i < length (f # files)"
    show "heap s' (next_ref s + i) =
        \<lparr>page_content = snd ((f # files) ! i),
         metadata = Map.empty(k_source \<mapsto> PStr (fst ((f # files) ! i)),
                      k_parent_id \<mapsto> PStr (uuid_source s (uuid_drawn s + i)),
                      k_doc_type \<mapsto> PStr (ascii ''parent''))\<rparr>"
    proof (cases i)
      case 0
      with old' s1 f show ?thesis by simp
    next
      case (Suc j)
      with i have "j < length files" by simp
      with new' s1 Suc show ?thesis by simp
    qed
  qed
  moreover have "next_ref s' = next_ref s + length (f # files)"
    using n' s1 by simp
  moreover have "uuid_source s' = uuid_source s" using u' s1 by simp
  moreover have "uuid_drawn s' = uuid_drawn s + length (f # files)" using u' s1 by simp
  moreover have "parent_child_map s' = parent_child_map s" using idx' s1 by simp
  ultimately show ?case by blast
qed

lemma load_documents_spec:
  "\<exists>s'. load_documents files s = (Inr [next_ref s ..< next_ref s + length files], s') \<and>
     documents s' = [next_ref s ..< next_ref s + length files] \<and>
     next_ref s' = next_ref s + length files \<and>
     uuid_source s' = uuid_source s \<and> uuid_drawn s' = uuid_drawn s + length files \<and>
     parent_child_map s' = parent_child_map s \<and>
     (\<forall>i<length files.
        page_content (heap s' (next_ref s + i)) = snd (files ! i) \<and>
        metadata (heap s' (next_ref s + i)) k_source = Some (PStr (fst (files ! i))) \<and>
        metadata (heap s' (next_ref s + i)) k_parent_id =
          Some (PStr (uuid_source s (uuid_drawn s + i))) \<and>
        metadata (heap s' (next_ref s + i)) k_doc_type = Some (PStr (ascii ''parent''))) \<and>
     loaded s'"
proof -
  let ?n = "next_ref s"
  let ?ds = "[?n ..< ?n + length files]"
  have keys: "k_source \<notin> {k_category, k_dish_name, k_difficulty}"
    "k_parent_id \<notin> {k_category, k_dish_name, k_difficulty}"
    "k_doc_type \<notin> {k_category, k_dish_name, k_difficulty}"
    "k_source \<noteq> k_parent_id" "k_source \<noteq> k_doc_type" "k_parent_id \<noteq> k_doc_type"
    by (simp_all add: key_defs)
  from read_files_spec[of files "[]" s] obtain s1 where
    rd: "read_files files [] s = (?ds, s1)"
    and n1: "next_ref s1 = ?n + length files"
    and u1: "uuid_source s1 = uuid_source s" "uuid_drawn s1 = uuid_drawn s + length files"
    and idx1: "parent_child_map s1 = parent_child_map s"
    and new1: "\<forall>i<length files. heap s1 (?n + i) =
        \<lparr>page_content = snd (files ! i),
         metadata = Map.empty(k_source \<mapsto> PStr (fst (files ! i)),
                      k_parent_id \<mapsto> PStr (uuid_source s (uuid_drawn s + i)),
                      k_doc_type \<mapsto> PStr (ascii ''parent''))\<rparr>"
    by auto
  have at1: "page_content (heap s1 (?n + i)) = snd (files ! i) \<and>
        metadata (heap s1 (?n + i)) k_source = Some (PStr (fst (files ! i))) \<and>
        metadata (heap s1 (?n + i)) k_parent_id = Some (PStr (uuid_source s (uuid_drawn s + i))) \<and>
        metadata (heap s1 (?n + i)) k_doc_type = Some (PStr (ascii ''parent''))"
    if "i < length files" for i
  proof -
    from new1 that have "heap s1 (?n + i) =
        \<lparr>page_content = snd (files ! i),
         metadata = Map.empty(k_source \<mapsto> PStr (fst (files ! i)),
                      k_parent_id \<mapsto> PStr (uuid_source s (uuid_drawn s + i)),
                      k_doc_type \<mapsto> PStr (ascii ''parent''))\<rparr>" by blast
    then show ?thesis using keys(4-6) by simp
  qed
  have "\<forall>d \<in> set ?ds. \<forall>n. metadata (heap s1 d) k_source \<noteq> Some (PInt n)"
  proof (intro ballI allI)
    fix d n assume "d \<in> set ?ds"
    then have "?n \<le> d" "d < ?n + length files" by simp_all
    then obtain i where "i < length files" "d = ?n + i"
      by (metis le_Suc_ex nat_add_left_cancel_less)
    with at1 show "metadata (heap s1 d) k_source \<noteq> Some (PInt n)" by simp
  qed
  from enhance_all_ok[OF this] obtain s2 where
    en: "enhance_all ?ds s1 = (Inr (), s2)" and eq: "s2\<lparr>heap := heap s1\<rparr> = s1"
    and frame: "\<forall>r. page_content (heap s2 r) = page_content (heap s1 r) \<and>
          (\<forall>k. k \<notin> {k_category, k_dish_name, k_difficulty} \<longrightarrow>
               metadata (heap s2 r) k = metadata (heap s1 r) k)"
    by blast
  have fields2: "next_ref s2 = next_ref s1" "uuid_source s2 = uuid_source s1"
    "uuid_drawn s2 = uuid_drawn s1" "parent_child_map s2 = parent_child_map s1"
  proof -
    have "next_ref (s2\<lparr>heap := heap s1\<rparr>) = next_ref s2"
      "uuid_source (s2\<lparr>heap := heap s1\<rparr>) = uuid_source s2"
      "uuid_drawn (s2\<lparr>heap := heap s1\<rparr>) = uuid_drawn s2"
      "parent_child_map (s2\<lparr>heap := heap s1\<rparr>) = parent_child_map s2"
      by simp_all
    then show "next_ref s2 = next_ref s1" "uuid_source s2 = uuid_source s1"
      "uuid_drawn s2 = uuid_drawn s1" "parent_child_map s2 = parent_child_map s1"
      by (simp_all only: eq)
  qed
  let ?s' = "s2\<lparr>documents := ?ds\<rparr>"
  have at2: "page_content (heap ?s' (?n + i)) = snd (files ! i) \<and>
        metadata (heap ?s' (?n + i)) k_source = Some (PStr (fst (files ! i))) \<and>
        metadata (heap ?s' (?n + i)) k_parent_id = Some (PStr (uuid_source s (uuid_drawn s + i))) \<and>
        metadata (heap ?s' (?n + i)) k_doc_type = Some (PStr (ascii ''parent''))"
    if "i < length files" for i
  proof -
    from frame have pc: "page_content (heap s2 (?n + i)) = page_content (heap s1 (?n + i))"
      by blast
    from frame keys(1) have a: "metadata (heap s2 (?n + i)) k_source = metadata (heap s1 (?n + i)) k_source"
      by blast
    from frame keys(2) have b: "metadata (heap s2 (?n + i)) k_parent_id = metadata (heap s1 (?n + i)) k_parent_id"
      by blast
    from frame keys(3) have c: "metadata (heap s2 (?n + i)) k_doc_type = metadata (heap s1 (?n + i)) k_doc_type"
      by blast
    from at1[OF that] pc a b c show ?thesis by simp
  qed
  have res: "load_documents files s = (Inr ?ds, ?s')"
    by (simp add: load_documents_def rd en)
  have "loaded ?s'"
    unfolding loaded_def
  proof (intro ballI)
    fix d assume "d \<in> set (documents ?s')"
    then have d: "?n \<le> d" "d < ?n + length files" by simp_all
    then obtain i where i: "i < length files" "d = ?n + i"
      by (metis le_Suc_ex nat_add_left_cancel_less)
    with at2[OF i(1)] show "d < next_ref ?s' \<and> metadata (heap ?s' d) k_parent_id \<noteq> None"
      by (simp add: fields2 n1)
  qed
  moreover have "documents ?s' = ?ds" by simp
  moreover have "next_ref ?s' = ?n + length files" by (simp add: fields2 n1)
  moreover have "uuid_source ?s' = uuid_source s" by (simp add: fields2 u1)
  moreover have "uuid_drawn ?s' = uuid_drawn s + length files" by (simp add: fields2 u1)
  moreover have "parent_child_map ?s' = parent_child_map s" by (simp add: fields2 idx1)
  moreover note res
  moreover have "\<forall>i<length files.
        page_content (heap ?s' (?n + i)) = snd (files ! i) \<and>
        metadata (heap ?s' (?n + i)) k_source = Some (PStr (fst (files ! i))) \<and>
        metadata (heap ?s' (?n + i)) k_parent_id = Some (PStr (uuid_source s (uuid_drawn s + i))) \<and>
        metadata (heap ?s' (?n + i)) k_doc_type = Some (PStr (ascii ''parent''))"
    using at2 by blast
  ultimately show ?thesis by blast
qed

section \<open>What splitting leaves in the store\<close>

lemma number_chunk_fields:
  "next_ref (number_chunk i c s) = next_ref s \<and>
   documents (number_chunk i c s) = documents s \<and>
   parent_child_map (number_chunk i c s) = parent_child_map s"
  by (simp add: number_chunk_def Let_def split_beta uuid4_simps update_metadata_simps)

lemma number_chunk_other:
  "r \<noteq> c \<Longrightarrow> heap (number_chunk i c s) r = heap s r"
  by (simp add: number_chunk_def Let_def split_beta uuid4_simps update_metadata_simps)

lemma number_chunk_frame:
  "page_content (heap (number_chunk i c s) r) = page_content (heap s r) \<and>
   (\<forall>k. k \<notin> {k_chunk_id, k_batch_index, k_chunk_size} \<longrightarrow>
        metadata (heap (number_chunk i c s) r) k = metadata (heap s r) k)"
  by (simp add: number_chunk_def Let_def split_beta uuid4_simps update_metadata_simps)

lemma number_chunks_fields:
  "next_ref (number_chunks i cs s) = next_ref s \<and>
   documents (number_chunks i cs s) = documents s \<and>
   parent_child_map (number_chunks i cs s) = parent_child_map s"
  by (induction cs arbitrary: i s) (simp_all add: number_chunk_fields)

lemma number_chunks_other:
  "r \<notin> set cs \<Longrightarrow> heap (number_chunks i cs s) r = heap s r"
  by (induction cs arbitrary: i s) (simp_all add: number_chunk_other)

lemma number_chunks_frame:
  "page_content (heap (number_chunks i cs s) r) = page_content (heap s r) \<and>
   (\<forall>k. k \<notin> {k_chunk_id, k_batch_index, k_chunk_size} \<longrightarrow>
        metadata (heap (number_chunks i cs s) r) k = metadata (heap s r) k)"
proof (induction cs arbitrary: i s)
  case Nil
  show ?case by simp
next
  case (Cons c cs)
  from Cons[of "Suc i" "number_chunk i c s"] number_chunk_frame[of i c s r]
  show ?case by simp
qed

lemma markdown_header_split_spec:
  assumes "loaded s"
  shows "\<exists>s'. markdown_header_split sp s = (Inr [next_ref s ..< next_ref s'], s') \<and>
     next_ref s' =
       next_ref s + length (expected_chunks sp (heap s) (uuid_source s) (uuid_drawn s) (documents s)) \<and>
     map (heap s') [next_ref s ..< next_ref s'] =
       expected_chunks sp (heap s) (uuid_source s) (uuid_drawn s) (documents s) \<and>
     (\<forall>r<next_ref s. heap s' r = heap s r) \<and>
     documents s' = documents s \<and>
     (next_ref s < next_ref s' \<or> parent_child_map s \<noteq> [] \<longrightarrow> parent_child_map s' \<noteq> [])"
proof -
  from assms have "\<forall>d \<in> set (documents s). d < next_ref s \<and> metadata (heap s d) k_parent_id \<noteq> None"
    by (simp add: loaded_def)
  from split_loop_spec[OF this, of sp "[]"] show ?thesis
    by (simp add: markdown_header_split_def)
qed

lemma chunk_documents_spec:
  assumes "loaded s" "documents s \<noteq> []"
  shows "\<exists>s'. chunk_documents sp s = (Inr [next_ref s ..< next_ref s'], s') \<and>
     chunks s' = [next_ref s ..< next_ref s'] \<and>
     next_ref s' =
       next_ref s + length (expected_chunks sp (heap s) (uuid_source s) (uuid_drawn s) (documents s)) \<and>
     map (\<lambda>c. page_content (heap s' c)) [next_ref s ..< next_ref s'] =
       map page_content (expected_chunks sp (heap s) (uuid_source s) (uuid_drawn s) (documents s)) \<and>
     (\<forall>k. k \<notin> {k_chunk_id, k_batch_index, k_chunk_size} \<longrightarrow>
        map (\<lambda>c. metadata (heap s' c) k) [next_ref s ..< next_ref s'] =
        map (\<lambda>c. metadata c k)
          (expected_chunks sp (heap s) (uuid_source s) (uuid_drawn s) (documents s))) \<and>
     (\<forall>r<next_ref s. heap s' r = heap s r) \<and>
     documents s' = documents s \<and>
     (next_ref s < next_ref s' \<or> parent_child_map s \<noteq> [] \<longrightarrow> parent_child_map s' \<noteq> [])"
proof -
  let ?E = "expected_chunks sp (heap s) (uuid_source s) (uuid_drawn s) (documents s)"
  from markdown_header_split_spec[OF assms(1), of sp] obtain s1 where
    sp: "markdown_header_split sp s = (Inr [next_ref s ..< next_ref s1], s1)"
    and n1: "next_ref s1 = next_ref s + length ?E"
    and new1: "map (heap s1) [next_ref s ..< next_ref s1] = ?E"
    and old1: "\<forall>r<next_ref s. heap s1 r = heap s r"
    and docs1: "documents s1 = documents s"
    and idx1: "next_ref s < next_ref s1 \<or> parent_child_map s \<noteq> [] \<longrightarrow> parent_child_map s1 \<noteq> []"
    by blast
  let ?cs = "[next_ref s ..< next_ref s1]"
  let ?s' = "(number_chunks 0 ?cs s1)\<lparr>chunks := ?cs\<rparr>"
  have res: "chunk_documents sp s = (Inr ?cs, ?s')"
    using assms(2) sp by (simp add: chunk_documents_def)
  have n': "next_ref ?s' = next_ref s1" by (simp add: number_chunks_fields)
  have pc: "map (\<lambda>c. page_content (heap ?s' c)) ?cs = map page_content ?E"
  proof -
    have "map (\<lambda>c. page_content (heap ?s' c)) ?cs = map (\<lambda>c. page_content (heap s1 c)) ?cs"
      by (simp add: number_chunks_frame)
    also have "\<dots> = map page_content (map (heap s1) ?cs)" by (simp add: comp_def)
    finally show ?thesis by (simp only: new1)
  qed
  have md: "map (\<lambda>c. metadata (heap ?s' c) k) ?cs = map (\<lambda>c. metadata c k) ?E"
    if "k \<notin> {k_chunk_id, k_batch_index, k_chunk_size}" for k
  proof -
    have "map (\<lambda>c. metadata (heap ?s' c) k) ?cs = map (\<lambda>c. metadata (heap s1 c) k) ?cs"
      using that number_chunks_frame[of 0 ?cs s1] by simp
    also have "\<dots> = map (\<lambda>c. metadata c k) (map (heap s1) ?cs)" by (simp add: comp_def)
    finally show ?thesis by (simp only: new1)
  qed
  have old: "\<forall>r<next_ref s. heap ?s' r = heap s r"
    using old1 by (simp add: number_chunks_other)
  have "chunk_documents sp s = (Inr [next_ref s ..< next_ref ?s'], ?s')"
    using res n' by simp
  moreover have "chunks ?s' = [next_ref s ..< next_ref ?s']" using n' by simp
  moreover have "next_ref ?s' = next_ref s + length ?E" using n' n1 by simp
  moreover have "map (\<lambda>c. page_content (heap ?s' c)) [next_ref s ..< next_ref ?s'] = map page_content ?E"
    using pc n' by simp
  moreover have "\<forall>k. k \<notin> {k_chunk_id, k_batch_index, k_chunk_size} \<longrightarrow>
        map (\<lambda>c. metadata (heap ?s' c) k) [next_ref s ..< next_ref ?s'] = map (\<lambda>c. metadata c k) ?E"
    using md n' by simp
  moreover note old
  moreover have "documents ?s' = documents s" using docs1 by (simp add: number_chunks_fields)
  moreover have "next_ref s < next_ref ?s' \<or> parent_child_map s \<noteq> [] \<longrightarrow> parent_child_map ?s' \<noteq> []"
    using idx1 n' by (simp add: number_chunks_fields)
  ultimately show ?thesis by blast
qed

lemma chunks_of_contents:
  "map page_content (chunks_of sp h gen u d) = map fst (sp (page_content (h d)))"
proof -
  have "map page_content (chunks_of sp h gen u d) =
        map (fst \<circ> snd) (enumerate 0 (sp (page_content (h d))))"
    by (simp add: chunks_of_def split_beta comp_def)
  also have "\<dots> = map fst (map snd (enumerate 0 (sp (page_content (h d)))))"
    by (rule map_map[symmetric])
  finally show ?thesis by (simp only: map_snd_enumerate)
qed

lemma chunks_of_positions:
  "map (\<lambda>c. metadata c k_chunk_index) (chunks_of sp h gen u d) =
   map (\<lambda>i. Some (PInt (int i))) [0 ..< length (sp (page_content (h d)))]"
proof -
  have "map (\<lambda>c. metadata c k_chunk_index) (chunks_of sp h gen u d) =
        map ((\<lambda>i. Some (PInt (int i))) \<circ> fst) (enumerate 0 (sp (page_content (h d))))"
    by (simp add: chunks_of_def split_beta comp_def child_metadata_def)
  also have "\<dots> = map (\<lambda>i. Some (PInt (int i))) (map fst (enumerate 0 (sp (page_content (h d)))))"
    by (rule map_map[symmetric])
  finally show ?thesis by (simp only: map_fst_enumerate add_0)
qed

lemma chunks_of_parent_id:
  assumes "metadata (h d) k_parent_id \<noteq> None"
  shows "map (\<lambda>c. metadata c k_parent_id) (chunks_of sp h gen u d) =
         replicate (length (sp (page_content (h d)))) (metadata (h d) k_parent_id)"
proof -
  have keys: "k_parent_id \<noteq> k_doc_type" "k_parent_id \<noteq> k_chunk_index"
    by (simp_all add: key_defs)
  from assms obtain pid where "metadata (h d) k_parent_id = Some pid" by blast
  then show ?thesis using keys
    by (simp add: chunks_of_def split_beta comp_def child_metadata_def map_replicate_const)
qed

lemma expected_contents:
  "map page_content (expected_chunks sp h gen u docs) =
   concat (map (\<lambda>d. map fst (sp (page_content (h d)))) docs)"
  by (induction docs arbitrary: u) (simp_all add: chunks_of_contents)

lemma expected_positions:
  "map (\<lambda>c. metadata c k_chunk_index) (expected_chunks sp h gen u docs) =
   concat (map (\<lambda>d. map (\<lambda>i. Some (PInt (int i))) [0 ..< length (sp (page_content (h d)))]) docs)"
  by (induction docs arbitrary: u) (simp_all add: chunks_of_positions)

lemma expected_parent_ids:
  "\<forall>d \<in> set docs. metadata (h d) k_parent_id \<noteq> None \<Longrightarrow>
   map (\<lambda>c. metadata c k_parent_id) (expected_chunks sp h gen u docs) =
   concat (map (\<lambda>d. replicate (length (sp (page_content (h d)))) (metadata (h d) k_parent_id)) docs)"
  by (induction docs arbitrary: u) (simp_all add: chunks_of_parent_id)

lemma length_expected:
  "length (expected_chunks sp h gen u docs) = length (owners sp h docs)"
  by (induction docs arbitrary: u) (simp_all add: owners_def)

lemma chunks_of_inherit:
  assumes "metadata (h d) k_parent_id \<noteq> None" "j < length (sp (page_content (h d)))"
    "k \<in> dom (metadata (h d))" "k \<notin> {k_chunk_id, k_doc_type, k_chunk_index}"
  shows "metadata (chunks_of sp h gen u d ! j) k = metadata (h d) k"
  using assms
  by (auto simp: chunks_of_def nth_enumerate_eq split_beta child_metadata_def map_add_def
           split: option.splits)

lemma expected_inherit:
  assumes "\<forall>d \<in> set docs. metadata (h d) k_parent_id \<noteq> None"
  shows "list_all2
     (\<lambda>c d. \<forall>k \<in> dom (metadata (h d)). k \<notin> {k_chunk_id, k_doc_type, k_chunk_index} \<longrightarrow>
               metadata c k = metadata (h d) k)
     (expected_chunks sp h gen u docs) (owners sp h docs)"
  using assms
proof (induction docs arbitrary: u)
  case Nil
  show ?case by (simp add: owners_def)
next
  case (Cons d docs)
  let ?P = "\<lambda>c d. \<forall>k \<in> dom (metadata (h d)). k \<notin> {k_chunk_id, k_doc_type, k_chunk_index} \<longrightarrow>
               metadata c k = metadata (h d) k"
  from Cons.prems have pid: "metadata (h d) k_parent_id \<noteq> None" by simp
  have here: "list_all2 ?P (chunks_of sp h gen u d) (replicate (length (sp (page_content (h d)))) d)"
    unfolding list_all2_conv_all_nth
  proof (intro conjI allI impI)
    show "length (chunks_of sp h gen u d) = length (replicate (length (sp (page_content (h d)))) d)"
      by simp
  next
    fix j assume "j < length (chunks_of sp h gen u d)"
    then have j: "j < length (sp (page_content (h d)))" by simp
    then show "?P (chunks_of sp h gen u d ! j) (replicate (length (sp (page_content (h d)))) d ! j)"
      using chunks_of_inherit[of h d j sp _ gen u] pid by simp
  qed
  from Cons.prems have "\<forall>d \<in> set docs. metadata (h d) k_parent_id \<noteq> None" by simp
  from Cons.IH[OF this] have rest:
    "list_all2 ?P (expected_chunks sp h gen (u + length (sp (page_content (h d)))) docs) (owners sp h docs)" .
  have "owners sp h (d # docs) = replicate (length (sp (page_content (h d)))) d @ owners sp h docs"
    by (simp add: owners_def)
  with list_all2_appendI[OF here rest] show ?case by simp
qed

section \<open>The sample states\<close>

lemma init_fields:
  "next_ref (init p g) = 0" "uuid_source (init p g) = g" "uuid_drawn (init p g) = 0"
  "parent_child_map (init p g) = []" "documents (init p g) = []"
  by (simp_all add: init_def)

lemma loaded_state_facts:
  "loaded loaded_state" "documents loaded_state = [0, Suc 0]" "next_ref loaded_state = 2"
  "uuid_source loaded_state = sample_ids" "uuid_drawn loaded_state = 2"
  "parent_child_map loaded_state = []"
  "page_content (heap loaded_state 0) = ascii ''# broth'' @ [10] @ ascii ''## steps''"
  "page_content (heap loaded_state (Suc 0)) = ascii ''# tea''"
  "metadata (heap loaded_state 0) k_parent_id = Some (PStr (sample_ids 0))"
  "metadata (heap loaded_state (Suc 0)) k_parent_id = Some (PStr (sample_ids 1))"
  "metadata (heap loaded_state 0) k_doc_type = Some (PStr (ascii ''parent''))"
proof -
  from load_documents_spec[of sample_files "init (ascii ''dishes'') sample_ids"]
  obtain s' where
    res: "load_documents sample_files (init (ascii ''dishes'') sample_ids) =
            (Inr [0 ..< length sample_files], s')"
    and f: "documents s' = [0 ..< length sample_files]" "next_ref s' = length sample_files"
      "uuid_source s' = sample_ids" "uuid_drawn s' = length sample_files"
      "parent_child_map s' = []" "loaded s'"
    and at: "\<forall>i<length sample_files.
        page_content (heap s' i) = snd (sample_files ! i) \<and>
        metadata (heap s' i) k_source = Some (PStr (fst (sample_files ! i))) \<and>
        metadata (heap s' i) k_parent_id = Some (PStr (sample_ids i)) \<and>
        metadata (heap s' i) k_doc_type = Some (PStr (ascii ''parent''))"
    by (auto simp: init_fields)
  have eq: "loaded_state = s'" by (simp add: loaded_state_def res)
  have len: "length sample_files = 2" by (simp add: sample_files_def)
  from at len have a0: "page_content (heap s' 0) = snd (sample_files ! 0)"
    "metadata (heap s' 0) k_parent_id = Some (PStr (sample_ids 0))"
    "metadata (heap s' 0) k_doc_type = Some (PStr (ascii ''parent''))" by simp_all
  from at len have a1: "page_content (heap s' (Suc 0)) = snd (sample_files ! 1)"
    "metadata (heap s' (Suc 0)) k_parent_id = Some (PStr (sample_ids 1))"
    by (metis One_nat_def one_less_numeral_iff semiring_norm(76))+
  show "loaded loaded_state" "documents loaded_state = [0, Suc 0]" "next_ref loaded_state = 2"
    "uuid_source loaded_state = sample_ids" "uuid_drawn loaded_state = 2"
    "parent_child_map loaded_state = []"
    using f len by (simp_all add: eq upt_rec)
  show "page_content (heap loaded_state 0) = ascii ''# broth'' @ [10] @ ascii ''## steps''"
    "page_content (heap loaded_state (Suc 0)) = ascii ''# tea''"
    "metadata (heap loaded_state 0) k_parent_id = Some (PStr (sample_ids 0))"
    "metadata (heap loaded_state (Suc 0)) k_parent_id = Some (PStr (sample_ids 1))"
    "metadata (heap loaded_state 0) k_doc_type = Some (PStr (ascii ''parent''))"
    using a0 a1 by (simp_all add: eq sample_files_def)
qed

lemmas loaded_state_fields = loaded_state_facts(2-6)
lemmas loaded_state_contents = loaded_state_facts(7-8)
lemmas loaded_state_metadata = loaded_state_facts(9-11)

lemma blank_state_facts:
  "loaded blank_state" "documents blank_state = [0]" "next_ref blank_state = 1"
  "page_content (heap blank_state 0) = []"
  "metadata (heap blank_state 0) k_parent_id = Some (PStr (sample_ids 0))"
proof -
  from load_documents_spec[of blank_files "init (ascii ''dishes'') sample_ids"]
  obtain s' where
    res: "load_documents blank_files (init (ascii ''dishes'') sample_ids) =
            (Inr [0 ..< length blank_files], s')"
    and f: "documents s' = [0 ..< length blank_files]" "next_ref s' = length blank_files"
      "loaded s'"
    and at: "\<forall>i<length blank_files.
        page_content (heap s' i) = snd (blank_files ! i) \<and>
        metadata (heap s' i) k_source = Some (PStr (fst (blank_files ! i))) \<and>
        metadata (heap s' i) k_parent_id = Some (PStr (sample_ids i)) \<and>
        metadata (heap s' i) k_doc_type = Some (PStr (ascii ''parent''))"
    by (auto simp: init_fields)
  have eq: "blank_state = s'" by (simp add: blank_state_def res)
  have len: "length blank_files = 1" by (simp add: blank_files_def)
  from at len have a0: "page_content (heap s' 0) = snd (blank_files ! 0)"
    "metadata (heap s' 0) k_parent_id = Some (PStr (sample_ids 0))" by simp_all
  show "loaded blank_state" "documents blank_state = [0]" "next_ref blank_state = 1"
    using f len by (simp_all add: eq)
  show "page_content (heap blank_state 0) = []"
    "metadata (heap blank_state 0) k_parent_id = Some (PStr (sample_ids 0))"
    using a0 by (simp_all add: eq blank_files_def)
qed

lemma sample_fragments:
  "sample_split [] = []"
  "sample_split (page_content (heap loaded_state 0)) =
     [(ascii ''# broth'', Map.empty), (ascii ''## steps'', Map.empty)]"
  "sample_split (page_content (heap loaded_state (Suc 0))) = [(ascii ''# tea'', Map.empty)]"
  by (simp_all add: loaded_state_contents sample_split_def ascii_def)

section \<open>Positions and fragments\<close>

lemma map_pair_zip: "map (\<lambda>c. (f c, g c)) xs = zip (map f xs) (map g xs)"
  by (induction xs) simp_all

lemma expected_pairs:
  assumes "\<forall>d \<in> set docs. metadata (h d) k_parent_id \<noteq> None"
  shows "zip (map (\<lambda>c. metadata c k_parent_id) (expected_chunks sp h gen u docs))
             (map (\<lambda>c. metadata c k_chunk_index) (expected_chunks sp h gen u docs)) =
         concat (map (\<lambda>d. map (\<lambda>i. (metadata (h d) k_parent_id, Some (PInt (int i))))
                              [0 ..< length (sp (page_content (h d)))]) docs)"
  using assms
proof (induction docs arbitrary: u)
  case Nil
  show ?case by simp
next
  case (Cons d docs)
  let ?n = "length (sp (page_content (h d)))"
  from Cons.prems have pid: "metadata (h d) k_parent_id \<noteq> None" by simp
  have here: "zip (map (\<lambda>c. metadata c k_parent_id) (chunks_of sp h gen u d))
                  (map (\<lambda>c. metadata c k_chunk_index) (chunks_of sp h gen u d)) =
              map (\<lambda>i. (metadata (h d) k_parent_id, Some (PInt (int i)))) [0 ..< ?n]"
  proof -
    have "map (\<lambda>c. metadata c k_parent_id) (chunks_of sp h gen u d) =
          replicate ?n (metadata (h d) k_parent_id)"
      using pid by (rule chunks_of_parent_id)
    then show ?thesis
      unfolding chunks_of_positions by (intro nth_equalityI) simp_all
  qed
  from Cons.prems have "\<forall>d \<in> set docs. metadata (h d) k_parent_id \<noteq> None" by simp
  from Cons.IH[OF this, of "u + ?n"] here show ?case by simp
qed

text \<open>
  C7. When the loaded documents are split, the call succeeds, and the chunks, read in
  the order of emission as pairs of \<open>parent_id\<close> and \<open>chunk_index\<close>, are for each document
  in turn its \<open>parent_id\<close> with the indices 0, 1, ..., n - 1, where n is the number of
  fragments the splitter gave for that document.
\<close>

theorem position_in_parent_contiguous:
  assumes "loaded s" "documents s \<noteq> []"
  shows "\<exists>cs s'. chunk_documents sp s = (Inr cs, s') \<and>
     map (\<lambda>c. (metadata (heap s' c) k_parent_id, metadata (heap s' c) k_chunk_index)) cs =
     concat (map (\<lambda>d. map (\<lambda>i. (metadata (heap s d) k_parent_id, Some (PInt (int i))))
                          [0 ..< length (sp (page_content (heap s d)))]) (documents s))"
proof -
  let ?E = "expected_chunks sp (heap s) (uuid_source s) (uuid_drawn s) (documents s)"
  have keys: "k_parent_id \<notin> {k_chunk_id, k_batch_index, k_chunk_size}"
    "k_chunk_index \<notin> {k_chunk_id, k_batch_index, k_chunk_size}"
    by (simp_all add: key_defs)
  from chunk_documents_spec[OF assms, of sp] obtain s' where
    res: "chunk_documents sp s = (Inr [next_ref s ..< next_ref s'], s')"
    and md: "\<forall>k. k \<notin> {k_chunk_id, k_batch_index, k_chunk_size} \<longrightarrow>
        map (\<lambda>c. metadata (heap s' c) k) [next_ref s ..< next_ref s'] = map (\<lambda>c. metadata c k) ?E"
    by blast
  let ?cs = "[next_ref s ..< next_ref s']"
  from md keys have a: "map (\<lambda>c. metadata (heap s' c) k_parent_id) ?cs = map (\<lambda>c. metadata c k_parent_id) ?E"
    and b: "map (\<lambda>c. metadata (heap s' c) k_chunk_index) ?cs = map (\<lambda>c. metadata c k_chunk_index) ?E"
    by blast+
  from assms(1) have pids: "\<forall>d \<in> set (documents s). metadata (heap s d) k_parent_id \<noteq> None"
    by (simp add: loaded_def)
  have "map (\<lambda>c. (metadata (heap s' c) k_parent_id, metadata (heap s' c) k_chunk_index)) ?cs =
        zip (map (\<lambda>c. metadata c k_parent_id) ?E) (map (\<lambda>c. metadata c k_chunk_index) ?E)"
    unfolding map_pair_zip a b ..
  with expected_pairs[OF pids, of sp "uuid_source s" "uuid_drawn s"] res show ?thesis by simp
qed

text \<open>
  The two sample files give three chunks: indices 0 and 1 under the first parent, index 0
  under the second.
\<close>

theorem position_in_parent_contiguous_witness:
  "loaded loaded_state \<and> documents loaded_state \<noteq> [] \<and>
   (\<exists>cs s'. chunk_documents sample_split loaded_state = (Inr cs, s') \<and>
      map (\<lambda>c. (metadata (heap s' c) k_parent_id, metadata (heap s' c) k_chunk_index)) cs =
        [(Some (PStr (sample_ids 0)), Some (PInt 0)), (Some (PStr (sample_ids 0)), Some (PInt 1)),
         (Some (PStr (sample_ids 1)), Some (PInt 0))])"
proof -
  have ne: "documents loaded_state \<noteq> []" by (simp add: loaded_state_facts)
  from position_in_parent_contiguous[OF loaded_state_facts(1) ne, of sample_split]
  show ?thesis
    by (simp add: loaded_state_facts(1) loaded_state_fields loaded_state_metadata sample_fragments)
qed

text \<open>
  C4, as the code has it. Splitting the loaded documents succeeds, and the sections are
  exactly the fragments the splitter returned, document by document: their contents are
  the fragments' contents and each carries the \<open>parent_id\<close> of its document. A document
  for which the splitter returns no fragment therefore gets no section, and no error is
  raised for it.
\<close>

theorem sections_are_the_fragments:
  assumes "loaded s" "documents s \<noteq> []"
  shows "\<exists>cs s'. chunk_documents sp s = (Inr cs, s') \<and> chunks s' = cs \<and>
     map (\<lambda>c. page_content (heap s' c)) cs =
       concat (map (\<lambda>d. map fst (sp (page_content (heap s d)))) (documents s)) \<and>
     map (\<lambda>c. metadata (heap s' c) k_parent_id) cs =
       concat (map (\<lambda>d. replicate (length (sp (page_content (heap s d))))
                            (metadata (heap s d) k_parent_id)) (documents s))"
proof -
  let ?E = "expected_chunks sp (heap s) (uuid_source s) (uuid_drawn s) (documents s)"
  have key: "k_parent_id \<notin> {k_chunk_id, k_batch_index, k_chunk_size}"
    by (simp add: key_defs)
  from chunk_documents_spec[OF assms, of sp] obtain s' where
    res: "chunk_documents sp s = (Inr [next_ref s ..< next_ref s'], s')"
    and cs: "chunks s' = [next_ref s ..< next_ref s']"
    and pc: "map (\<lambda>c. page_content (heap s' c)) [next_ref s ..< next_ref s'] = map page_content ?E"
    and md: "\<forall>k. k \<notin> {k_chunk_id, k_batch_index, k_chunk_size} \<longrightarrow>
        map (\<lambda>c. metadata (heap s' c) k) [next_ref s ..< next_ref s'] = map (\<lambda>c. metadata c k) ?E"
    by blast
  from md key have a: "map (\<lambda>c. metadata (heap s' c) k_parent_id) [next_ref s ..< next_ref s'] =
      map (\<lambda>c. metadata c k_parent_id) ?E"
    by blast
  from assms(1) have pids: "\<forall>d \<in> set (documents s). metadata (heap s d) k_parent_id \<noteq> None"
    by (simp add: loaded_def)
  from res cs pc a show ?thesis
    by (simp add: expected_contents expected_parent_ids[OF pids])
qed

text \<open>
  C4 as stated fails: the loaded file \<open>dishes/blank.md\<close> has no text, the splitter
  returns no fragment for it, and \<open>chunk_documents\<close> returns the empty list of sections:
  the document is left out without an error.
\<close>

theorem zero_fragments_counterexample:
  "documents blank_state = [0] \<and> sample_split (page_content (heap blank_state 0)) = [] \<and>
   chunk_documents sample_split blank_state = (Inr [], blank_state\<lparr>chunks := []\<rparr>)"
  by (simp add: blank_state_facts sample_fragments chunk_documents_def markdown_header_split_def)

text \<open>On that state the hypotheses hold and the theorem gives no section.\<close>

theorem sections_are_the_fragments_witness:
  "loaded blank_state \<and> documents blank_state \<noteq> [] \<and>
   (\<exists>s'. chunk_documents sample_split blank_state = (Inr [], s') \<and> chunks s' = [])"
proof -
  have ne: "documents blank_state \<noteq> []" by (simp add: blank_state_facts)
  from sections_are_the_fragments[OF blank_state_facts(1) ne, of sample_split]
  obtain cs s' where res: "chunk_documents sample_split blank_state = (Inr cs, s')"
    and cs: "chunks s' = cs"
    and pc: "map (\<lambda>c. page_content (heap s' c)) cs =
       concat (map (\<lambda>d. map fst (sample_split (page_content (heap blank_state d))))
                 (documents blank_state))"
    by blast
  from pc have e: "cs = []" by (simp add: blank_state_facts sample_fragments)
  from res cs have "chunk_documents sample_split blank_state = (Inr [], s') \<and> chunks s' = []"
    unfolding e by simp
  then have "\<exists>s'. chunk_documents sample_split blank_state = (Inr [], s') \<and> chunks s' = []" ..
  with blank_state_facts(1) ne show ?thesis by (intro conjI)
qed

section \<open>The sample pipeline after splitting\<close>

lemma chunks_of_doc_type:
  "map (\<lambda>c. metadata c k_doc_type) (chunks_of sp h gen u d) =
   replicate (length (sp (page_content (h d)))) (Some (PStr (ascii ''child'')))"
proof -
  have "k_doc_type \<noteq> k_chunk_index" by (simp add: key_defs)
  then show ?thesis
    by (simp add: chunks_of_def split_beta comp_def child_metadata_def map_replicate_const)
qed

lemma expected_doc_type:
  "map (\<lambda>c. metadata c k_doc_type) (expected_chunks sp h gen u docs) =
   replicate (length (owners sp h docs)) (Some (PStr (ascii ''child'')))"
  by (induction docs arbitrary: u) (simp_all add: chunks_of_doc_type owners_def replicate_add)

lemma sample_owners:
  "owners sample_split (heap loaded_state) (documents loaded_state) = [0, 0, Suc 0]"
  by (simp add: owners_def loaded_state_fields sample_fragments)

lemma chunked_state_facts:
  "fst (chunk_documents sample_split loaded_state) = Inr [2, 3, 4]"
  "documents chunked_state = [0, Suc 0]"
  "chunks chunked_state = [2, 3, 4]"
  "next_ref chunked_state = 5"
  "parent_child_map chunked_state \<noteq> []"
  "map (\<lambda>c. metadata (heap chunked_state c) k_parent_id) [2, 3, 4] =
     [Some (PStr (sample_ids 0)), Some (PStr (sample_ids 0)), Some (PStr (sample_ids 1))]"
  "map (\<lambda>c. metadata (heap chunked_state c) k_doc_type) [2, 3, 4] =
     [Some (PStr (ascii ''child'')), Some (PStr (ascii ''child'')), Some (PStr (ascii ''child''))]"
  "map (\<lambda>d. metadata (heap chunked_state d) k_parent_id) [0, Suc 0] =
     [Some (PStr (sample_ids 0)), Some (PStr (sample_ids 1))]"
proof -
  let ?E = "expected_chunks sample_split (heap loaded_state) (uuid_source loaded_state)
              (uuid_drawn loaded_state) (documents loaded_state)"
  have ne: "documents loaded_state \<noteq> []" by (simp add: loaded_state_fields)
  have keys: "k_parent_id \<notin> {k_chunk_id, k_batch_index, k_chunk_size}"
    "k_doc_type \<notin> {k_chunk_id, k_batch_index, k_chunk_size}"
    by (simp_all add: key_defs)
  have len: "length ?E = 3" by (simp add: length_expected sample_owners)
  from chunk_documents_spec[OF loaded_state_facts(1) ne, of sample_split] obtain s' where
    res: "chunk_documents sample_split loaded_state =
            (Inr [next_ref loaded_state ..< next_ref s'], s')"
    and cs: "chunks s' = [next_ref loaded_state ..< next_ref s']"
    and n': "next_ref s' = next_ref loaded_state + length ?E"
    and md: "\<forall>k. k \<notin> {k_chunk_id, k_batch_index, k_chunk_size} \<longrightarrow>
        map (\<lambda>c. metadata (heap s' c) k) [next_ref loaded_state ..< next_ref s'] =
        map (\<lambda>c. metadata c k) ?E"
    and old: "\<forall>r<next_ref loaded_state. heap s' r = heap loaded_state r"
    and docs: "documents s' = documents loaded_state"
    and idx: "next_ref loaded_state < next_ref s' \<or> parent_child_map loaded_state \<noteq> [] \<longrightarrow>
              parent_child_map s' \<noteq> []"
    by blast
  have eq: "chunked_state = s'" by (simp add: chunked_state_def res)
  have n5: "next_ref s' = 5" using n' len by (simp add: loaded_state_fields)
  have range: "[next_ref loaded_state ..< next_ref s'] = [2, 3, 4]"
    unfolding n5 by (simp add: loaded_state_fields upt_rec)
  show "fst (chunk_documents sample_split loaded_state) = Inr [2, 3, 4]"
    by (simp add: res range)
  show "documents chunked_state = [0, Suc 0]" by (simp add: eq docs loaded_state_fields)
  show "chunks chunked_state = [2, 3, 4]" by (simp add: eq cs range)
  show "next_ref chunked_state = 5" by (simp add: eq n5)
  show "parent_child_map chunked_state \<noteq> []"
    using idx n5 by (simp add: eq loaded_state_fields)
  have pids: "\<forall>d \<in> set (documents loaded_state). metadata (heap loaded_state d) k_parent_id \<noteq> None"
    using loaded_state_facts(1) by (simp add: loaded_def)
  from md keys(1) have "map (\<lambda>c. metadata (heap s' c) k_parent_id) [2, 3, 4] =
      map (\<lambda>c. metadata c k_parent_id) ?E"
    unfolding range by blast
  then show "map (\<lambda>c. metadata (heap chunked_state c) k_parent_id) [2, 3, 4] =
     [Some (PStr (sample_ids 0)), Some (PStr (sample_ids 0)), Some (PStr (sample_ids 1))]"
    unfolding eq expected_parent_ids[OF pids]
    by (simp add: loaded_state_fields loaded_state_metadata sample_fragments)
  from md keys(2) have "map (\<lambda>c. metadata (heap s' c) k_doc_type) [2, 3, 4] =
      map (\<lambda>c. metadata c k_doc_type) ?E"
    unfolding range by blast
  then show "map (\<lambda>c. metadata (heap chunked_state c) k_doc_type) [2, 3, 4] =
     [Some (PStr (ascii ''child'')), Some (PStr (ascii ''child'')), Some (PStr (ascii ''child''))]"
    unfolding eq expected_doc_type sample_owners by (simp add: numeral_eq_Suc)
  from old have "heap s' 0 = heap loaded_state 0" "heap s' (Suc 0) = heap loaded_state (Suc 0)"
    by (simp_all add: loaded_state_fields)
  then show "map (\<lambda>d. metadata (heap chunked_state d) k_parent_id) [0, Suc 0] =
     [Some (PStr (sample_ids 0)), Some (PStr (sample_ids 1))]"
    by (simp add: eq loaded_state_metadata)
qed

section \<open>The outcomes of aggregation\<close>

lemma scan_chunks_skip:
  assumes "\<not> votes s c"
  shows "scan_chunks s (c # cs) rel dm = scan_chunks s cs rel dm"
proof (cases "metadata (heap s c) k_parent_id")
  case None
  then show ?thesis by simp
next
  case (Some p)
  with assms have "\<not> truthy p" by (simp add: votes_def)
  with Some show ?thesis by simp
qed

lemma scan_chunks_vote:
  "votes s c \<Longrightarrow>
   scan_chunks s (c # cs) [] [] =
     (if parent_child_map s = [] then Inr (Some []) else Inl AttributeError)"
  by (cases "parent_child_map s")
     (auto simp: votes_def Let_def relevance_def split: option.splits)

lemma get_parent_documents_outcome:
  "get_parent_documents s cs =
     (if \<forall>c \<in> set cs. \<not> votes s c then Inr None
      else if parent_child_map s = [] then Inr (Some [])
      else Inl AttributeError)"
  unfolding get_parent_documents_def
proof (induction cs)
  case Nil
  show ?case by simp
next
  case (Cons c cs)
  show ?case
  proof (cases "votes s c")
    case True
    from scan_chunks_vote[OF True] True show ?thesis by auto
  next
    case False
    from scan_chunks_skip[OF False] have "scan_chunks s (c # cs) [] [] = scan_chunks s cs [] []" .
    with Cons False show ?thesis by simp
  qed
qed

text \<open>
  C1. The pipeline has loaded and split the two sample files; sections 2 and 3 come from
  the first document and section 4 from the second, so the claim expects the documents
  in the order first, second. The lookup of the parent walks the keys of the index,
  which are strings, and the call raises \<open>AttributeError\<close>.
\<close>

theorem get_parent_documents_three_sections:
  "documents chunked_state = [0, Suc 0] \<and>
   map (\<lambda>d. metadata (heap chunked_state d) k_parent_id) [0, Suc 0] =
     [Some (PStr (sample_ids 0)), Some (PStr (sample_ids 1))] \<and>
   map (\<lambda>c. metadata (heap chunked_state c) k_parent_id) [2, 3, 4] =
     [Some (PStr (sample_ids 0)), Some (PStr (sample_ids 0)), Some (PStr (sample_ids 1))] \<and>
   get_parent_documents chunked_state [2, 3, 4] = Inl AttributeError"
proof -
  from chunked_state_facts(6) have "metadata (heap chunked_state 2) k_parent_id = Some (PStr (sample_ids 0))"
    by simp
  then have "votes chunked_state 2" by (simp add: votes_def sample_ids_def)
  then have "get_parent_documents chunked_state [2, 3, 4] = Inl AttributeError"
    using chunked_state_facts(5) by (simp add: get_parent_documents_outcome)
  with chunked_state_facts(2,6,8) show ?thesis by simp
qed

lemma stray_state_facts:
  "heap stray_state = (heap chunked_state)(5 := stray_section)"
  "documents stray_state = [0, Suc 0]"
  "parent_child_map stray_state \<noteq> []"
  by (simp_all add: stray_state_def new_document_simps chunked_state_facts)

text \<open>
  C2. A section whose \<open>parent_id\<close> is \<open>gone\<close>, the identity of no loaded document, is
  handed to the pipeline that has split the sample files. The claim expects the section
  to be skipped without an error; the call raises \<open>AttributeError\<close>.
\<close>

theorem get_parent_documents_unresolved_parent:
  "metadata (heap stray_state 5) k_parent_id = Some (PStr (ascii ''gone'')) \<and>
   map (\<lambda>d. metadata (heap stray_state d) k_parent_id) (documents stray_state) =
     [Some (PStr (ascii ''id-0'')), Some (PStr (ascii ''id-1''))] \<and>
   get_parent_documents stray_state [5] = Inl AttributeError"
proof -
  have pid: "metadata (heap stray_state 5) k_parent_id = Some (PStr (ascii ''gone''))"
    by (simp add: stray_state_facts stray_section_def)
  then have "votes stray_state 5" by (simp add: votes_def ascii_def)
  then have "get_parent_documents stray_state [5] = Inl AttributeError"
    using stray_state_facts(3) by (simp add: get_parent_documents_outcome)
  moreover have "map (\<lambda>d. metadata (heap stray_state d) k_parent_id) (documents stray_state) =
     [Some (PStr (ascii ''id-0'')), Some (PStr (ascii ''id-1''))]"
    using chunked_state_facts(8) by (simp add: stray_state_facts sample_ids_def ascii_def)
  ultimately show ?thesis using pid by simp
qed

text \<open>
  C8, as the code has it. \<open>chunk_documents\<close> called while no document is loaded raises
  \<open>ValueError\<close> and does no partial work: the pipeline is as it was, so no chunk is
  produced and no entry of the index is registered, and no result is returned.
\<close>

theorem empty_document_set:
  "documents s = [] \<Longrightarrow> chunk_documents sp s = (Inl ValueError, s)"
  by (simp add: chunk_documents_def)

text \<open>
  C8 as stated fails for aggregation: in a pipeline that has loaded nothing, the call on
  one section with a \<open>parent_id\<close> returns the empty list, not an error.
\<close>

theorem aggregation_unloaded_counterexample:
  "documents orphan_state = [] \<and> get_parent_documents orphan_state [0] = Inr (Some [])"
proof -
  have f: "documents orphan_state = []" "parent_child_map orphan_state = []"
    "heap orphan_state 0 = stray_section"
    by (simp_all add: orphan_state_def new_document_simps init_fields)
  then have "votes orphan_state 0" by (simp add: votes_def stray_section_def ascii_def)
  with f show ?thesis by (simp add: get_parent_documents_outcome)
qed

text \<open>Splitting in the pipeline as it is created fails with \<open>ValueError\<close>.\<close>

theorem empty_document_set_witness:
  "documents (init (ascii ''dishes'') sample_ids) = [] \<and>
   chunk_documents sample_split (init (ascii ''dishes'') sample_ids) =
     (Inl ValueError, init (ascii ''dishes'') sample_ids)"
  using empty_document_set[of "init (ascii ''dishes'') sample_ids" sample_split]
  by (simp add: init_fields)

section \<open>Metadata inheritance\<close>

lemma loaded_state_source:
  "metadata (heap loaded_state 0) k_source = Some (PStr (ascii ''dishes/soup/broth.md''))"
proof -
  from load_documents_spec[of sample_files "init (ascii ''dishes'') sample_ids"]
  obtain s' where
    res: "load_documents sample_files (init (ascii ''dishes'') sample_ids) =
            (Inr [0 ..< length sample_files], s')"
    and at: "\<forall>i<length sample_files.
        page_content (heap s' i) = snd (sample_files ! i) \<and>
        metadata (heap s' i) k_source = Some (PStr (fst (sample_files ! i))) \<and>
        metadata (heap s' i) k_parent_id = Some (PStr (sample_ids i)) \<and>
        metadata (heap s' i) k_doc_type = Some (PStr (ascii ''parent''))"
    by (auto simp: init_fields)
  have eq: "loaded_state = s'" by (simp add: loaded_state_def res)
  have "0 < length sample_files" by (simp add: sample_files_def)
  with at have "metadata (heap s' 0) k_source = Some (PStr (fst (sample_files ! 0)))" by blast
  then show ?thesis by (simp add: eq sample_files_def)
qed

text \<open>
  C6, as the code has it. After the loaded documents are split, each section agrees with
  the document it comes from on every key that document had when it was split, except
  the keys the splitting stage sets itself: \<open>doc_type\<close>, \<open>chunk_id\<close>, \<open>chunk_index\<close>,
  \<open>batch_index\<close> and \<open>chunk_size\<close>. A section and a document are different objects of
  the store, and splitting leaves the documents as they were: a later change of a
  document's metadata does not reach a section, nor the other way round.
\<close>

theorem inherited_metadata_copy:
  assumes "loaded s" "documents s \<noteq> []"
  shows "\<exists>cs s'. chunk_documents sp s = (Inr cs, s') \<and>
     length cs = length (owners sp (heap s) (documents s)) \<and>
     (\<forall>j<length cs. \<forall>k \<in> dom (metadata (heap s (owners sp (heap s) (documents s) ! j))).
         k \<notin> {k_doc_type, k_chunk_id, k_chunk_index, k_batch_index, k_chunk_size} \<longrightarrow>
         metadata (heap s' (cs ! j)) k =
           metadata (heap s (owners sp (heap s) (documents s) ! j)) k) \<and>
     (\<forall>c \<in> set cs. \<forall>d \<in> set (documents s).
         c \<noteq> d \<and> heap s' d = heap s d \<and>
         (\<forall>f. heap (update_metadata d f s') c = heap s' c \<and>
              heap (update_metadata c f s') d = heap s' d))"
proof -
  let ?E = "expected_chunks sp (heap s) (uuid_source s) (uuid_drawn s) (documents s)"
  let ?O = "owners sp (heap s) (documents s)"
  from chunk_documents_spec[OF assms, of sp] obtain s' where
    res: "chunk_documents sp s = (Inr [next_ref s ..< next_ref s'], s')"
    and n': "next_ref s' = next_ref s + length ?E"
    and md: "\<forall>k. k \<notin> {k_chunk_id, k_batch_index, k_chunk_size} \<longrightarrow>
        map (\<lambda>c. metadata (heap s' c) k) [next_ref s ..< next_ref s'] = map (\<lambda>c. metadata c k) ?E"
    and old: "\<forall>r<next_ref s. heap s' r = heap s r"
    by blast
  let ?cs = "[next_ref s ..< next_ref s']"
  have len: "length ?cs = length ?O" using n' by (simp add: length_expected)
  from assms(1) have pids: "\<forall>d \<in> set (documents s). metadata (heap s d) k_parent_id \<noteq> None"
    and below: "\<forall>d \<in> set (documents s). d < next_ref s"
    by (simp_all add: loaded_def)
  have inh: "list_all2
     (\<lambda>c d. \<forall>k \<in> dom (metadata (heap s d)). k \<notin> {k_chunk_id, k_doc_type, k_chunk_index} \<longrightarrow>
               metadata c k = metadata (heap s d) k) ?E ?O"
    using pids by (rule expected_inherit)
  have keys: "\<forall>j<length ?cs. \<forall>k \<in> dom (metadata (heap s (?O ! j))).
         k \<notin> {k_doc_type, k_chunk_id, k_chunk_index, k_batch_index, k_chunk_size} \<longrightarrow>
         metadata (heap s' (?cs ! j)) k = metadata (heap s (?O ! j)) k"
  proof (intro allI impI ballI)
    fix j k
    assume j: "j < length ?cs" and k: "k \<in> dom (metadata (heap s (?O ! j)))"
      and ex: "k \<notin> {k_doc_type, k_chunk_id, k_chunk_index, k_batch_index, k_chunk_size}"
    from j len have jE: "j < length ?E" by (simp add: length_expected)
    from ex md have "map (\<lambda>c. metadata (heap s' c) k) ?cs = map (\<lambda>c. metadata c k) ?E" by simp
    then have "map (\<lambda>c. metadata (heap s' c) k) ?cs ! j = map (\<lambda>c. metadata c k) ?E ! j" by simp
    with j jE have a: "metadata (heap s' (?cs ! j)) k = metadata (?E ! j) k" by simp
    from inh jE have "\<forall>k \<in> dom (metadata (heap s (?O ! j))).
        k \<notin> {k_chunk_id, k_doc_type, k_chunk_index} \<longrightarrow> metadata (?E ! j) k = metadata (heap s (?O ! j)) k"
      by (simp add: list_all2_conv_all_nth)
    with k ex have "metadata (?E ! j) k = metadata (heap s (?O ! j)) k" by simp
    with a show "metadata (heap s' (?cs ! j)) k = metadata (heap s (?O ! j)) k" by simp
  qed
  have apart: "\<forall>c \<in> set ?cs. \<forall>d \<in> set (documents s).
         c \<noteq> d \<and> heap s' d = heap s d \<and>
         (\<forall>f. heap (update_metadata d f s') c = heap s' c \<and>
              heap (update_metadata c f s') d = heap s' d)"
  proof (intro ballI)
    fix c d assume "c \<in> set ?cs" and d: "d \<in> set (documents s)"
    then have "next_ref s \<le> c" by simp
    moreover from d below have dn: "d < next_ref s" by simp
    ultimately have "c \<noteq> d" by simp
    moreover from old dn have "heap s' d = heap s d" by simp
    ultimately show "c \<noteq> d \<and> heap s' d = heap s d \<and>
         (\<forall>f. heap (update_metadata d f s') c = heap s' c \<and>
              heap (update_metadata c f s') d = heap s' d)"
      by (simp add: update_metadata_simps)
  qed
  from res len keys apart show ?thesis by blast
qed

text \<open>
  C6 as stated fails at the key \<open>doc_type\<close>: the first sample document has
  \<open>doc_type = parent\<close> when it is split, and section 2, the first one made from it, has
  \<open>doc_type = child\<close>.
\<close>

theorem inherited_doc_type_counterexample:
  "fst (chunk_documents sample_split loaded_state) = Inr [2, 3, 4] \<and>
   owners sample_split (heap loaded_state) (documents loaded_state) = [0, 0, Suc 0] \<and>
   metadata (heap loaded_state 0) k_doc_type = Some (PStr (ascii ''parent'')) \<and>
   metadata (heap (snd (chunk_documents sample_split loaded_state)) 2) k_doc_type =
     Some (PStr (ascii ''child''))"
proof -
  from chunked_state_facts(7)
  have "metadata (heap chunked_state 2) k_doc_type = Some (PStr (ascii ''child''))" by simp
  then show ?thesis
    by (simp add: chunked_state_facts(1) sample_owners loaded_state_metadata chunked_state_def)
qed

text \<open>
  The first section of the sample has the \<open>source\<close> of the first document, and emptying
  that document's metadata afterwards leaves the section as it is.
\<close>

theorem inherited_metadata_copy_witness:
  "loaded loaded_state \<and> documents loaded_state \<noteq> [] \<and>
   (\<exists>cs s'. chunk_documents sample_split loaded_state = (Inr cs, s') \<and>
      metadata (heap s' (cs ! 0)) k_source = Some (PStr (ascii ''dishes/soup/broth.md'')) \<and>
      heap (update_metadata 0 (\<lambda>m. Map.empty) s') (cs ! 0) = heap s' (cs ! 0))"
proof -
  let ?O = "owners sample_split (heap loaded_state) (documents loaded_state)"
  have ne: "documents loaded_state \<noteq> []" by (simp add: loaded_state_fields)
  from inherited_metadata_copy[OF loaded_state_facts(1) ne, of sample_split]
  obtain cs s' where
    res: "chunk_documents sample_split loaded_state = (Inr cs, s')"
    and len: "length cs = length ?O"
    and keys: "\<forall>j<length cs. \<forall>k \<in> dom (metadata (heap loaded_state (?O ! j))).
         k \<notin> {k_doc_type, k_chunk_id, k_chunk_index, k_batch_index, k_chunk_size} \<longrightarrow>
         metadata (heap s' (cs ! j)) k = metadata (heap loaded_state (?O ! j)) k"
    and apart: "\<forall>c \<in> set cs. \<forall>d \<in> set (documents loaded_state).
         c \<noteq> d \<and> heap s' d = heap loaded_state d \<and>
         (\<forall>f. heap (update_metadata d f s') c = heap s' c \<and>
              heap (update_metadata c f s') d = heap s' d)"
    by blast
  from len have l: "0 < length cs" by (simp add: sample_owners)
  have dom: "k_source \<in> dom (metadata (heap loaded_state (?O ! 0)))"
    by (simp add: sample_owners loaded_state_source dom_def)
  have ex: "k_source \<notin> {k_doc_type, k_chunk_id, k_chunk_index, k_batch_index, k_chunk_size}"
    by (simp add: key_defs)
  from keys l dom ex have "metadata (heap s' (cs ! 0)) k_source = metadata (heap loaded_state (?O ! 0)) k_source"
    by blast
  then have a: "metadata (heap s' (cs ! 0)) k_source = Some (PStr (ascii ''dishes/soup/broth.md''))"
    by (simp add: sample_owners loaded_state_source)
  from l have "cs ! 0 \<in> set cs" by simp
  moreover have "0 \<in> set (documents loaded_state)" by (simp add: loaded_state_fields)
  ultimately have b: "heap (update_metadata 0 (\<lambda>m. Map.empty) s') (cs ! 0) = heap s' (cs ! 0)"
    using apart by blast
  from res a b have "\<exists>cs s'. chunk_documents sample_split loaded_state = (Inr cs, s') \<and>
      metadata (heap s' (cs ! 0)) k_source = Some (PStr (ascii ''dishes/soup/broth.md'')) \<and>
      heap (update_metadata 0 (\<lambda>m. Map.empty) s') (cs ! 0) = heap s' (cs ! 0)"
    by blast
  with loaded_state_facts(1) ne show ?thesis by (intro conjI)
qed

end
